(* ===== verification/DDS_Prelude.thy ===== *)
theory DDS_Prelude
  imports Complex_Main
begin

text \<open>
  Shared vocabulary of the DDSketch development (src/includes/ddsketch/ddsketch.h):
  the C++ scalar types as HOL types, the error outcomes of the header (thrown
  exceptions and undefined behaviour of out-of-range \<open>std::deque\<close> access) as
  values of a sum type, a bind on that sum type, C's truncating integer
  operations, and the list lemmas the store proofs share.
\<close>

section \<open>Scalar types\<close>

text \<open>
  \<open>RealValue\<close> is \<open>double\<close>; it is modelled by \<open>real\<close>, so rounding of the
  floating-point operations is not modelled. \<open>Index\<close> is \<open>int64_t\<close>; it is modelled
  by \<open>int\<close> and the 64-bit limits appear where the code uses them as sentinels.
\<close>

type_synonym real_value = real
type_synonym index = int
type_synonym bin_list = "real list"

definition int64_max :: index where
  "int64_max = 2 ^ 63 - 1"

definition int64_min :: index where
  "int64_min = - (2 ^ 63)"

named_theorems store_simps "characteristic equations of the store operations"

section \<open>Errors\<close>

text \<open>
  \<open>IllegalArgument\<close> is \<open>IllegalArgumentException\<close>, \<open>UnequalSketchParameters\<close>
  is \<open>UnequalSketchParametersException\<close>, \<open>InvalidArgument\<close> is the
  \<open>std::invalid_argument\<close> of \<open>BinList::collapsed_count\<close>; \<open>OutOfRange\<close> stands
  for the undefined behaviour of a \<open>std::deque\<close> access or erase outside the
  container, which the C++ does not check. \<open>LengthError\<close> is the
  \<open>std::length_error\<close> of \<open>std::vector::resize\<close> (test/datasets.h) and of the
  \<open>std::deque\<close> constructor in \<open>BinList::initialize_with_zeros\<close>, thrown when a
  negative signed length converts to a \<open>size_t\<close> above \<open>max_size()\<close>.
\<close>

datatype error = IllegalArgument | UnequalSketchParameters | InvalidArgument | OutOfRange | LengthError

type_synonym 'a res = "error + 'a"

definition res_bind :: "'a res \<Rightarrow> ('a \<Rightarrow> 'b res) \<Rightarrow> 'b res" where
  "res_bind m f = (case m of Inl e \<Rightarrow> Inl e | Inr x \<Rightarrow> f x)"

text \<open>
  A signed length (\<open>Index\<close> or \<open>int\<close>) passed where a container expects a
  \<open>size_t\<close>: a negative one wraps to a length beyond \<open>max_size()\<close>, and the
  container throws \<open>std::length_error\<close>.
\<close>

definition size_t_length :: "int \<Rightarrow> nat res" where
  "size_t_length n = (if n < 0 then Inl LengthError else Inr (nat n))"

lemma size_t_length_nonneg [simp]: "0 \<le> n \<Longrightarrow> size_t_length n = Inr (nat n)"
  by (simp add: size_t_length_def)

lemma size_t_length_neg [simp]: "n < 0 \<Longrightarrow> size_t_length n = Inl LengthError"
  by (simp add: size_t_length_def)

lemma res_bind_Inr [simp]: "res_bind (Inr x) f = f x"
  by (simp add: res_bind_def)

lemma res_bind_Inl [simp]: "res_bind (Inl e) f = Inl e"
  by (simp add: res_bind_def)

lemma res_bind_eq_Inr:
  "res_bind m f = Inr y \<longleftrightarrow> (\<exists>x. m = Inr x \<and> f x = Inr y)"
  by (cases m) (auto simp: res_bind_def)

section \<open>C arithmetic\<close>

text \<open>C++ integer division truncates towards zero.\<close>

definition c_div :: "int \<Rightarrow> int \<Rightarrow> int" where
  "c_div a b = sgn a * sgn b * (\<bar>a\<bar> div \<bar>b\<bar>)"

lemma c_div_nonneg [simp]: "0 \<le> a \<Longrightarrow> 0 < b \<Longrightarrow> c_div a b = a div b"
  by (cases "a = 0") (auto simp: c_div_def sgn_if)

text \<open>\<open>static_cast<Index>\<close> of a \<open>double\<close> truncates towards zero.\<close>

definition trunc_cast :: "real \<Rightarrow> index" where
  "trunc_cast x = (if 0 \<le> x then \<lfloor>x\<rfloor> else \<lceil>x\<rceil>)"

lemma trunc_cast_of_int [simp]: "trunc_cast (real_of_int k) = k"
  by (simp add: trunc_cast_def)

lemma ceiling_int_quotient: "\<lceil>real_of_int a / real_of_int b\<rceil> = - ((- a) div b)"
proof -
  have "\<lceil>real_of_int a / real_of_int b\<rceil> = - \<lfloor>real_of_int (- a) / real_of_int b\<rfloor>"
    by (simp add: ceiling_def)
  also have "\<dots> = - ((- a) div b)"
    by (simp only: floor_divide_of_int_eq)
  finally show ?thesis .
qed

lemma ceiling_quotient_ge: "0 < c \<Longrightarrow> d \<le> c * \<lceil>real_of_int d / real_of_int c\<rceil>"
proof -
  assume c: "0 < c"
  have "real_of_int d = real_of_int c * (real_of_int d / real_of_int c)"
    using c by simp
  also have "\<dots> \<le> real_of_int c * real_of_int \<lceil>real_of_int d / real_of_int c\<rceil>"
    using c by (intro mult_left_mono) auto
  finally have "real_of_int d \<le> real_of_int (c * \<lceil>real_of_int d / real_of_int c\<rceil>)"
    by simp
  then show ?thesis by (simp only: of_int_le_iff)
qed

section \<open>Lists\<close>

lemma sum_list_take_drop: "sum_list (take n xs) + sum_list (drop n xs) = sum_list xs"
  by (metis append_take_drop_id sum_list_append)

lemma sum_list_zeros: "(\<forall>x\<in>set xs. x = 0) \<Longrightarrow> sum_list xs = (0::real)"
  by (induction xs) auto

lemma find_map: "find P (map f xs) = map_option f (find (P \<circ> f) xs)"
  by (induction xs) auto

lemma nth_replicate_append:
  "(replicate n x @ ys) ! i = (if i < n then x else ys ! (i - n))"
  by (simp add: nth_append)

lemma length_filter_sort: "length (filter P (sort xs)) = length (filter P xs)"
  by (metis filter_sort length_sort)

lemma sorted_rank_counts:
  fixes f :: "'a::linorder \<Rightarrow> 'b::linorder"
  assumes mono: "\<And>x y. x \<in> set xs \<Longrightarrow> y \<in> set xs \<Longrightarrow> x \<le> y \<Longrightarrow> f x \<le> f y"
    and j: "j < length xs"
  shows "j < length (filter (\<lambda>k. k \<le> f (sort xs ! j)) (map f xs))"
    "length (filter (\<lambda>k. k < f (sort xs ! j)) (map f xs)) \<le> j"
proof -
  let ?ys = "sort xs"
  have ys: "sorted ?ys" "length ?ys = length xs" "set ?ys = set xs" by simp_all
  have mem: "i < length xs \<Longrightarrow> ?ys ! i \<in> set xs" for i
    using ys by (metis nth_mem)
  have le: "i \<le> i' \<Longrightarrow> i' < length xs \<Longrightarrow> f (?ys ! i) \<le> f (?ys ! i')" for i i'
    using mono mem sorted_nth_mono [OF ys(1)] ys(2) by simp
  have cnt: "length (filter P (map f xs)) = card {i. i < length xs \<and> P (f (?ys ! i))}" for P
    using length_filter_sort [of "P \<circ> f" xs] by (simp add: filter_map length_filter_conv_card)
  have "{..j} \<subseteq> {i. i < length xs \<and> f (?ys ! i) \<le> f (?ys ! j)}"
    using j le by auto
  then have "card {..j} \<le> card {i. i < length xs \<and> f (?ys ! i) \<le> f (?ys ! j)}"
    by (intro card_mono) auto
  then show "j < length (filter (\<lambda>k. k \<le> f (sort xs ! j)) (map f xs))"
    unfolding cnt by simp
  have "{i. i < length xs \<and> f (?ys ! i) < f (?ys ! j)} \<subseteq> {..<j}"
    using le j by (auto simp: not_less [symmetric])
  then have "card {i. i < length xs \<and> f (?ys ! i) < f (?ys ! j)} \<le> card {..<j}"
    by (intro card_mono) auto
  then show "length (filter (\<lambda>k. k < f (sort xs ! j)) (map f xs)) \<le> j"
    unfolding cnt by simp
qed

end
