(* ===== verification/BinList.thy ===== *)
theory BinList
  imports DDS_Prelude
begin

text \<open>
  \<open>BinList<double>\<close> (ddsketch.h, class \<open>BinList\<close>): a \<open>std::deque\<close> of counters,
  modelled as a \<open>real list\<close>. Every operation the stores use is a definition
  here. Operations that the C++ performs without a bounds check (\<open>operator[]\<close>,
  \<open>first\<close>, \<open>last\<close>, \<open>erase\<close> of a range) return \<open>Inl OutOfRange\<close> where the
  deque access would be undefined; \<open>collapsed_count\<close> returns
  \<open>Inl InvalidArgument\<close> where it throws.
  Parameters of type \<open>size_t\<close> are \<open>nat\<close>, parameters of type \<open>int\<close> are \<open>int\<close>.
\<close>

section \<open>Operations\<close>

definition initialize_with_zeros :: "nat \<Rightarrow> bin_list" where
  "initialize_with_zeros num_zeros = replicate num_zeros 0"

definition extend_front_with_zeros :: "bin_list \<Rightarrow> nat \<Rightarrow> bin_list" where
  "extend_front_with_zeros xs n = replicate n 0 @ xs"

definition extend_back_with_zeros :: "bin_list \<Rightarrow> nat \<Rightarrow> bin_list" where
  "extend_back_with_zeros xs n = xs @ replicate n 0"

definition remove_trailing_elements :: "bin_list \<Rightarrow> nat \<Rightarrow> bin_list res" where
  "remove_trailing_elements xs n =
     (if n \<le> length xs then Inr (take (length xs - n) xs) else Inl OutOfRange)"

definition remove_leading_elements :: "bin_list \<Rightarrow> nat \<Rightarrow> bin_list res" where
  "remove_leading_elements xs n =
     (if n \<le> length xs then Inr (drop n xs) else Inl OutOfRange)"

definition replace_range_with_zeros :: "bin_list \<Rightarrow> int \<Rightarrow> int \<Rightarrow> nat \<Rightarrow> bin_list res" where
  "replace_range_with_zeros xs start_idx end_idx num_zeros =
     (if 0 \<le> start_idx \<and> start_idx \<le> end_idx \<and> end_idx \<le> int (length xs)
      then Inr (take (nat start_idx) xs @ replicate num_zeros 0 @ drop (nat end_idx) xs)
      else Inl OutOfRange)"

text \<open>
  \<open>index_outside_bounds\<close> takes a \<open>size_t\<close>: a negative \<open>int\<close> converts to a huge
  value and is out of bounds. An interval with \<open>end_idx < start_idx\<close> passes the
  check, and \<open>std::accumulate\<close> over it is undefined.
\<close>

definition index_outside_bounds :: "bin_list \<Rightarrow> int \<Rightarrow> bool" where
  "index_outside_bounds xs idx \<longleftrightarrow> idx < 0 \<or> int (length xs) < idx"

definition collapsed_count :: "bin_list \<Rightarrow> int \<Rightarrow> int \<Rightarrow> real res" where
  "collapsed_count xs start_idx end_idx =
     (if index_outside_bounds xs start_idx \<or> index_outside_bounds xs end_idx
      then Inl InvalidArgument
      else if end_idx < start_idx then Inl OutOfRange
      else Inr (sum_list (take (nat end_idx - nat start_idx) (drop (nat start_idx) xs))))"

definition bl_sum :: "bin_list \<Rightarrow> real res" where
  "bl_sum xs = collapsed_count xs 0 (int (length xs))"

definition has_only_zeros :: "bin_list \<Rightarrow> bool" where
  "has_only_zeros xs \<longleftrightarrow> list_all (\<lambda>x. x = 0) xs"

text \<open>\<open>bins_[idx]\<close> read, \<open>bins_[idx] += w\<close> and \<open>bins_[idx] = v\<close>.\<close>

definition bl_get :: "bin_list \<Rightarrow> int \<Rightarrow> real res" where
  "bl_get xs idx = (if 0 \<le> idx \<and> idx < int (length xs) then Inr (xs ! nat idx) else Inl OutOfRange)"

definition bl_add :: "bin_list \<Rightarrow> int \<Rightarrow> real \<Rightarrow> bin_list res" where
  "bl_add xs idx w =
     (if 0 \<le> idx \<and> idx < int (length xs) then Inr (xs[nat idx := xs ! nat idx + w])
      else Inl OutOfRange)"

definition bl_set :: "bin_list \<Rightarrow> int \<Rightarrow> real \<Rightarrow> bin_list res" where
  "bl_set xs idx v =
     (if 0 \<le> idx \<and> idx < int (length xs) then Inr (xs[nat idx := v]) else Inl OutOfRange)"

section \<open>Lemmas\<close>

lemma bl_sum_eq [simp]: "bl_sum xs = Inr (sum_list xs)"
  by (simp add: bl_sum_def collapsed_count_def index_outside_bounds_def)

lemma has_only_zeros_iff: "has_only_zeros xs \<longleftrightarrow> (\<forall>x\<in>set xs. x = 0)"
  by (simp add: has_only_zeros_def list_all_iff)

lemma collapsed_count_Inr:
  "0 \<le> s \<Longrightarrow> s \<le> e \<Longrightarrow> e \<le> int (length xs) \<Longrightarrow>
   collapsed_count xs s e = Inr (sum_list (take (nat e - nat s) (drop (nat s) xs)))"
  by (simp add: collapsed_count_def index_outside_bounds_def)

lemma bl_add_Inr [store_simps]:
  "0 \<le> i \<Longrightarrow> i < int (length xs) \<Longrightarrow> bl_add xs i w = Inr (xs[nat i := xs ! nat i + w])"
  by (simp add: bl_add_def)

lemma bl_get_Inr [store_simps]:
  "0 \<le> i \<Longrightarrow> i < int (length xs) \<Longrightarrow> bl_get xs i = Inr (xs ! nat i)"
  by (simp add: bl_get_def)

lemma sum_list_update_add:
  "i < length xs \<Longrightarrow> sum_list (xs[i := xs ! i + w]) = sum_list xs + (w::real)"
  by (induction xs arbitrary: i) (auto split: nat.splits)

lemma extend_back_with_zeros_simps [simp]:
  "length (extend_back_with_zeros xs n) = length xs + n"
  "sum_list (extend_back_with_zeros xs n) = sum_list xs"
  by (simp_all add: extend_back_with_zeros_def sum_list_replicate)

lemma initialize_with_zeros_simps [simp]:
  "length (initialize_with_zeros n) = n" "sum_list (initialize_with_zeros n) = 0"
  by (simp_all add: initialize_with_zeros_def sum_list_replicate)

end
