(* ===== verification/DenseStore.thy ===== *)
theory DenseStore
  imports BinList
begin

text \<open>
  \<open>BaseDenseStore\<close> (ddsketch.h, the \<open>DenseStore\<close> of the sketch): a window of
  counters \<open>bins\<close> whose position \<open>i\<close> holds the counter of key \<open>i + offset\<close>.
  The C++ class is the base of the two collapsing stores, which override the
  virtual methods \<open>get_new_length\<close>, \<open>adjust\<close> and \<open>get_index\<close>; the record is
  extended by them (CollapsingStore.thy) and the shared methods are stated over
  the record scheme. \<open>extend_range\<close> takes the two overridable methods as
  parameters, the way the C++ dispatches them.
\<close>

section \<open>State\<close>

record dense_store =
  count :: real_value
  min_key :: index
  max_key :: index
  chunk_size :: index
  offset :: index
  bins :: bin_list

definition kChunkSize :: index where
  "kChunkSize = 128"

definition new_dense_store :: "index \<Rightarrow> dense_store" where
  "new_dense_store chunk_sz =
     \<lparr>count = 0, min_key = int64_max, max_key = int64_min,
      chunk_size = chunk_sz, offset = 0, bins = []\<rparr>"

definition store_length :: "'a dense_store_scheme \<Rightarrow> index" where
  "store_length s = int (length (bins s))"

definition is_empty :: "'a dense_store_scheme \<Rightarrow> bool" where
  "is_empty s \<longleftrightarrow> store_length s = 0"

section \<open>Operations of the base class\<close>

definition dense_copy :: "'a dense_store_scheme \<Rightarrow> 'b dense_store_scheme \<Rightarrow> 'a dense_store_scheme" where
  "dense_copy s t =
     s\<lparr>count := count t, min_key := min_key t, max_key := max_key t,
       offset := offset t, bins := bins t\<rparr>"

definition dense_get_new_length :: "'a dense_store_scheme \<Rightarrow> index \<Rightarrow> index \<Rightarrow> index" where
  "dense_get_new_length s new_min_key new_max_key =
     (let desired_length = new_max_key - new_min_key + 1;
          num_chunks = \<lceil>real_of_int desired_length / real_of_int (chunk_size s)\<rceil>
      in chunk_size s * num_chunks)"

definition shift_bins :: "'a dense_store_scheme \<Rightarrow> index \<Rightarrow> 'a dense_store_scheme res" where
  "shift_bins s shift =
     (if 0 < shift then
        res_bind (remove_trailing_elements (bins s) (nat shift))
          (\<lambda>b. Inr (s\<lparr>bins := extend_front_with_zeros b (nat shift), offset := offset s - shift\<rparr>))
      else
        (let abs_shift = nat \<bar>shift\<bar> in
         res_bind (remove_leading_elements (bins s) abs_shift)
          (\<lambda>b. Inr (s\<lparr>bins := extend_back_with_zeros b abs_shift, offset := offset s - shift\<rparr>))))"

definition center_bins :: "'a dense_store_scheme \<Rightarrow> index \<Rightarrow> index \<Rightarrow> 'a dense_store_scheme res" where
  "center_bins s new_min_key new_max_key =
     (let middle_key = new_min_key + c_div (new_max_key - new_min_key + 1) 2
      in shift_bins s (offset s + c_div (store_length s) 2 - middle_key))"

definition dense_adjust :: "'a dense_store_scheme \<Rightarrow> index \<Rightarrow> index \<Rightarrow> 'a dense_store_scheme res" where
  "dense_adjust s new_min_key new_max_key =
     res_bind (center_bins s new_min_key new_max_key)
       (\<lambda>s'. Inr (s'\<lparr>min_key := new_min_key, max_key := new_max_key\<rparr>))"

text \<open>\<open>extend_range(key, second_key)\<close>, with the virtual methods as parameters.\<close>

definition extend_range ::
  "('a dense_store_scheme \<Rightarrow> index \<Rightarrow> index \<Rightarrow> index)
   \<Rightarrow> ('a dense_store_scheme \<Rightarrow> index \<Rightarrow> index \<Rightarrow> 'a dense_store_scheme res)
   \<Rightarrow> 'a dense_store_scheme \<Rightarrow> index \<Rightarrow> index \<Rightarrow> 'a dense_store_scheme res" where
  "extend_range get_new_length adjust s key second_key =
     (let new_min_key = min key (min second_key (min_key s));
          new_max_key = max key (max second_key (max_key s))
      in if is_empty s then
           (let new_length = get_new_length s new_min_key new_max_key
            in res_bind (size_t_length new_length)
                 (\<lambda>n. adjust (s\<lparr>bins := initialize_with_zeros n, offset := new_min_key\<rparr>)
                        new_min_key new_max_key))
         else if min_key s \<le> new_min_key \<and> new_max_key < offset s + store_length s then
           Inr (s\<lparr>min_key := new_min_key, max_key := new_max_key\<rparr>)
         else
           (let new_length = get_new_length s new_min_key new_max_key;
                s1 = (if store_length s < new_length
                      then s\<lparr>bins := extend_back_with_zeros (bins s) (nat (new_length - store_length s))\<rparr>
                      else s)
            in adjust s1 new_min_key new_max_key))"

definition dense_extend_range :: "'a dense_store_scheme \<Rightarrow> index \<Rightarrow> index \<Rightarrow> 'a dense_store_scheme res" where
  "dense_extend_range = extend_range dense_get_new_length dense_adjust"

definition dense_get_index :: "'a dense_store_scheme \<Rightarrow> index \<Rightarrow> ('a dense_store_scheme \<times> index) res" where
  "dense_get_index s key =
     (if key < min_key s \<or> max_key s < key
      then res_bind (dense_extend_range s key key) (\<lambda>s'. Inr (s', key - offset s'))
      else Inr (s, key - offset s))"

text \<open>
  \<open>add(key, weight)\<close> is the same in all three stores up to the \<open>get_index\<close> it
  calls; \<open>store_add\<close> takes that method as a parameter.
\<close>

definition store_add ::
  "('a dense_store_scheme \<Rightarrow> index \<Rightarrow> ('a dense_store_scheme \<times> index) res)
   \<Rightarrow> 'a dense_store_scheme \<Rightarrow> index \<Rightarrow> real_value \<Rightarrow> 'a dense_store_scheme res" where
  "store_add get_index s key weight =
     res_bind (get_index s key)
       (\<lambda>(s', idx). res_bind (bl_add (bins s') idx weight)
          (\<lambda>b. Inr (s'\<lparr>bins := b, count := count s' + weight\<rparr>)))"

definition dense_add :: "'a dense_store_scheme \<Rightarrow> index \<Rightarrow> real_value \<Rightarrow> 'a dense_store_scheme res" where
  "dense_add = store_add dense_get_index"

text \<open>The loop of \<open>key_at_rank\<close>: \<open>running\<close> is \<open>running_ct\<close>, \<open>idx\<close> the position.\<close>

fun key_at_rank_loop :: "bin_list \<Rightarrow> real \<Rightarrow> bool \<Rightarrow> real \<Rightarrow> index \<Rightarrow> index \<Rightarrow> index \<Rightarrow> index" where
  "key_at_rank_loop [] rank lower running idx off last_key = last_key"
| "key_at_rank_loop (bin_ct # bs) rank lower running idx off last_key =
     (let running' = running + bin_ct
      in if (lower \<and> rank < running') \<or> (\<not> lower \<and> rank + 1 \<le> running')
         then idx + off
         else key_at_rank_loop bs rank lower running' (idx + 1) off last_key)"

definition key_at_rank :: "'a dense_store_scheme \<Rightarrow> real \<Rightarrow> bool \<Rightarrow> index" where
  "key_at_rank s rank lower = key_at_rank_loop (bins s) rank lower 0 0 (offset s) (max_key s)"

text \<open>
  The loop of \<open>merge\<close>: for each key of \<open>keys\<close>,
  \<open>bins[key - offset] += store.bins[key - store.offset]\<close>.
\<close>

fun merge_bins_loop :: "bin_list \<Rightarrow> index \<Rightarrow> bin_list \<Rightarrow> index \<Rightarrow> index list \<Rightarrow> bin_list res" where
  "merge_bins_loop bs off tbs toff [] = Inr bs"
| "merge_bins_loop bs off tbs toff (key # keys) =
     res_bind (bl_get tbs (key - toff))
       (\<lambda>v. res_bind (bl_add bs (key - off) v) (\<lambda>bs'. merge_bins_loop bs' off tbs toff keys))"

definition dense_merge :: "'a dense_store_scheme \<Rightarrow> 'b dense_store_scheme \<Rightarrow> 'a dense_store_scheme res" where
  "dense_merge s t =
     (if count t = 0 then Inr s
      else if count s = 0 then Inr (dense_copy s t)
      else
        res_bind (if min_key t < min_key s \<or> max_key s < max_key t
                  then dense_extend_range s (min_key t) (max_key t) else Inr s)
          (\<lambda>s1. res_bind (merge_bins_loop (bins s1) (offset s1) (bins t) (offset t) [min_key t..max_key t])
             (\<lambda>b. Inr (s1\<lparr>bins := b, count := count s1 + count t\<rparr>))))"

section \<open>Abstraction and invariant\<close>

text \<open>
  The abstract store is a counter per key, \<open>index \<Rightarrow> real\<close>, zero outside a finite
  set; \<open>bin_count\<close> reads it off the window. \<open>abs_add\<close> and \<open>abs_merge\<close> are what
  \<open>add\<close> and \<open>merge\<close> promise (BaseStore's comment: merging is equivalent to running
  the other store's adds). \<open>dense_wf\<close> is the invariant the code keeps: a
  positive chunk size, \<open>count_ = sum(bins_)\<close>, the empty store marked by the
  \<open>int64_t\<close> sentinels of the constructor, and otherwise
  \<open>offset_ \<le> min_key_ \<le> max_key_ < offset_ + length()\<close> with every nonzero
  counter between \<open>min_key_\<close> and \<open>max_key_\<close>.
\<close>

definition bin_count :: "'a dense_store_scheme \<Rightarrow> index \<Rightarrow> real" where
  "bin_count s k =
     (if offset s \<le> k \<and> k < offset s + store_length s then bins s ! nat (k - offset s) else 0)"

fun bins_within :: "index \<Rightarrow> index \<Rightarrow> index \<Rightarrow> bin_list \<Rightarrow> bool" where
  "bins_within lo hi key [] = True"
| "bins_within lo hi key (b # bs) = ((b \<noteq> 0 \<longrightarrow> lo \<le> key \<and> key \<le> hi) \<and> bins_within lo hi (key + 1) bs)"

definition dense_wf :: "'a dense_store_scheme \<Rightarrow> bool" where
  "dense_wf s \<longleftrightarrow> 0 < chunk_size s \<and> count s = sum_list (bins s) \<and>
     int64_min \<le> min_key s \<and> max_key s \<le> int64_max \<and>
     (if bins s = [] then min_key s = int64_max \<and> max_key s = int64_min
      else offset s \<le> min_key s \<and> min_key s \<le> max_key s \<and> max_key s < offset s + store_length s \<and>
           bins_within (min_key s) (max_key s) (offset s) (bins s))"

definition abs_add :: "(index \<Rightarrow> real) \<Rightarrow> index \<Rightarrow> real \<Rightarrow> (index \<Rightarrow> real)" where
  "abs_add f key weight = f(key := f key + weight)"

definition abs_merge :: "(index \<Rightarrow> real) \<Rightarrow> (index \<Rightarrow> real) \<Rightarrow> (index \<Rightarrow> real)" where
  "abs_merge f g = (\<lambda>key. f key + g key)"



definition nonneg_bins :: "'a dense_store_scheme \<Rightarrow> bool" where
  "nonneg_bins s \<longleftrightarrow> list_all (\<lambda>x. 0 \<le> x) (bins s)"

definition rank_reached :: "bool \<Rightarrow> real \<Rightarrow> real \<Rightarrow> bool" where
  "rank_reached lower rank running \<longleftrightarrow> (lower \<and> rank < running) \<or> (\<not> lower \<and> rank + 1 \<le> running)"

definition key_at_rank_ref :: "'a dense_store_scheme \<Rightarrow> real \<Rightarrow> bool \<Rightarrow> index" where
  "key_at_rank_ref s rank lower =
     (case find (\<lambda>i. rank_reached lower rank (sum_list (take (Suc i) (bins s)))) [0..<length (bins s)] of
        Some i \<Rightarrow> offset s + int i
      | None \<Rightarrow> max_key s)"

text \<open>
  A sequence of \<open>add\<close> calls, as the store tests issue them, stopping at the first
  error; \<open>abs_adds\<close> is its abstract counterpart.
\<close>

fun dense_add_all :: "'a dense_store_scheme \<Rightarrow> (index \<times> real_value) list \<Rightarrow> 'a dense_store_scheme res" where
  "dense_add_all s [] = Inr s"
| "dense_add_all s ((key, weight) # kws) = res_bind (dense_add s key weight) (\<lambda>s'. dense_add_all s' kws)"

definition abs_adds :: "(index \<times> real) list \<Rightarrow> (index \<Rightarrow> real) \<Rightarrow> (index \<Rightarrow> real)" where
  "abs_adds kws f = fold (\<lambda>(key, weight) g. abs_add g key weight) kws f"

definition keys_in_range :: "(index \<times> real) list \<Rightarrow> bool" where
  "keys_in_range kws \<longleftrightarrow> list_all (\<lambda>(key, weight). int64_min \<le> key \<and> key \<le> int64_max) kws"

text \<open>The counts of the keys up to \<open>key\<close>, the running count of \<open>key_at_rank\<close>.\<close>

definition cum_count :: "'a dense_store_scheme \<Rightarrow> index \<Rightarrow> real" where
  "cum_count s key = sum (bin_count s) {offset s..key}"

section \<open>The abstraction\<close>

lemma bins_within_iff:
  "bins_within lo hi key bs \<longleftrightarrow> (\<forall>i<length bs. bs ! i \<noteq> 0 \<longrightarrow> lo \<le> key + int i \<and> key + int i \<le> hi)"
proof (induction bs arbitrary: key)
  case Nil
  then show ?case by simp
next
  case (Cons b bs)
  show ?case
    by (auto simp: Cons.IH nth_Cons' less_Suc_eq_0_disj)
qed

lemma bin_count_support:
  "bins_within lo hi (offset s) (bins s) \<longleftrightarrow> (\<forall>k. bin_count s k \<noteq> 0 \<longrightarrow> lo \<le> k \<and> k \<le> hi)"
proof -
  have "(\<forall>i<length (bins s). bins s ! i \<noteq> 0 \<longrightarrow> lo \<le> offset s + int i \<and> offset s + int i \<le> hi)
        \<longleftrightarrow> (\<forall>k. bin_count s k \<noteq> 0 \<longrightarrow> lo \<le> k \<and> k \<le> hi)" (is "?L \<longleftrightarrow> ?R")
  proof
    assume L: ?L
    show ?R
    proof (intro allI impI)
      fix k assume "bin_count s k \<noteq> 0"
      then have "offset s \<le> k" "nat (k - offset s) < length (bins s)" "bins s ! nat (k - offset s) \<noteq> 0"
        by (auto simp: bin_count_def store_length_def split: if_splits)
      with L show "lo \<le> k \<and> k \<le> hi" by fastforce
    qed
  next
    assume R: ?R
    show ?L
    proof (intro allI impI)
      fix i assume "i < length (bins s)" "bins s ! i \<noteq> 0"
      then have "bin_count s (offset s + int i) \<noteq> 0"
        by (simp add: bin_count_def store_length_def)
      with R show "lo \<le> offset s + int i \<and> offset s + int i \<le> hi" by blast
    qed
  qed
  then show ?thesis by (simp add: bins_within_iff)
qed

lemma sum_list_take_bins:
  "n \<le> length (bins s) \<Longrightarrow>
   sum_list (take n (bins s)) = (\<Sum>k\<in>{offset s..<offset s + int n}. bin_count s k)"
proof (induction n)
  case 0
  then show ?case by simp
next
  case (Suc n)
  have iv: "{offset s..<offset s + int (Suc n)} = insert (offset s + int n) {offset s..<offset s + int n}"
    by auto
  have b: "bin_count s (offset s + int n) = bins s ! n"
    using Suc.prems by (simp add: bin_count_def store_length_def)
  have "sum_list (take (Suc n) (bins s)) = sum_list (take n (bins s)) + bins s ! n"
    using Suc.prems by (simp add: take_Suc_conv_app_nth)
  also have "\<dots> = (\<Sum>k\<in>{offset s..<offset s + int n}. bin_count s k) + bin_count s (offset s + int n)"
    using Suc by (simp add: b)
  also have "\<dots> = (\<Sum>k\<in>{offset s..<offset s + int (Suc n)}. bin_count s k)"
    by (simp only: iv sum.insert finite_atLeastLessThan_int) (simp add: add.commute)
  finally show ?case .
qed

lemma sum_list_bins_window:
  "sum_list (bins s) = (\<Sum>k\<in>{offset s..<offset s + store_length s}. bin_count s k)"
  using sum_list_take_bins [of "length (bins s)" s] by (simp add: store_length_def)

lemma sum_list_bins_superset:
  assumes "finite K" "{offset s..<offset s + store_length s} \<subseteq> K"
  shows "sum_list (bins s) = sum (bin_count s) K"
proof -
  have "\<forall>k\<in>K - {offset s..<offset s + store_length s}. bin_count s k = 0"
    by (auto simp: bin_count_def)
  then show ?thesis
    unfolding sum_list_bins_window using assms by (intro sum.mono_neutral_left) auto
qed

lemma sum_list_bins_cong:
  assumes "bin_count s = bin_count t"
  shows "sum_list (bins s) = sum_list (bins t)"
proof -
  let ?K = "{offset s..<offset s + store_length s} \<union> {offset t..<offset t + store_length t}"
  have "sum_list (bins s) = sum (bin_count s) ?K"
    by (rule sum_list_bins_superset) auto
  also have "\<dots> = sum_list (bins t)"
    using assms sum_list_bins_superset [of ?K t] by auto
  finally show ?thesis .
qed

section \<open>Record updates\<close>

lemma store_length_upd [simp]:
  "store_length (s\<lparr>bins := b\<rparr>) = int (length b)"
  "store_length (s\<lparr>offset := o'\<rparr>) = store_length s"
  "store_length (s\<lparr>min_key := a\<rparr>) = store_length s"
  "store_length (s\<lparr>max_key := a\<rparr>) = store_length s"
  "store_length (s\<lparr>count := c\<rparr>) = store_length s"
  by (simp_all add: store_length_def)

lemma bin_count_upd [simp]:
  "bin_count (s\<lparr>min_key := a\<rparr>) = bin_count s"
  "bin_count (s\<lparr>max_key := a\<rparr>) = bin_count s"
  "bin_count (s\<lparr>count := c\<rparr>) = bin_count s"
  by (simp_all add: bin_count_def fun_eq_iff)

section \<open>Shifting and centring the window\<close>

lemma shift_bins_pos:
  "0 < sh \<Longrightarrow> sh \<le> store_length s \<Longrightarrow>
   shift_bins s sh = Inr (s\<lparr>bins := replicate (nat sh) 0 @ take (length (bins s) - nat sh) (bins s),
                            offset := offset s - sh\<rparr>)"
  by (simp add: shift_bins_def remove_trailing_elements_def extend_front_with_zeros_def store_length_def)

lemma shift_bins_nonpos:
  "sh \<le> 0 \<Longrightarrow> - sh \<le> store_length s \<Longrightarrow>
   shift_bins s sh = Inr (s\<lparr>bins := drop (nat (- sh)) (bins s) @ replicate (nat (- sh)) 0,
                            offset := offset s - sh\<rparr>)"
  by (simp add: shift_bins_def remove_leading_elements_def extend_back_with_zeros_def store_length_def Let_def)

lemma bin_count_shift_pos:
  assumes "0 < sh" "sh \<le> store_length s"
  shows "bin_count (s\<lparr>bins := replicate (nat sh) 0 @ take (length (bins s) - nat sh) (bins s),
                            offset := offset s - sh\<rparr>) k =
         (if offset s - sh \<le> k \<and> k < offset s - sh + store_length s then bin_count s k else 0)"
  using assms by (auto simp: bin_count_def store_length_def nth_append intro!: arg_cong[where f = "nth (bins s)"]; arith)

lemma bin_count_shift_nonpos:
  assumes "sh \<le> 0" "- sh \<le> store_length s"
  shows "bin_count (s\<lparr>bins := drop (nat (- sh)) (bins s) @ replicate (nat (- sh)) 0,
                            offset := offset s - sh\<rparr>) k =
         (if offset s - sh \<le> k \<and> k < offset s - sh + store_length s then bin_count s k else 0)"
  using assms by (auto simp: bin_count_def store_length_def nth_append intro!: arg_cong[where f = "nth (bins s)"]; arith)

lemma shift_bins_Inr:
  assumes "\<bar>sh\<bar> \<le> store_length s"
  shows "\<exists>b. shift_bins s sh = Inr (s\<lparr>bins := b, offset := offset s - sh\<rparr>) \<and> length b = length (bins s) \<and>
     (\<forall>k. bin_count (s\<lparr>bins := b, offset := offset s - sh\<rparr>) k =
          (if offset s - sh \<le> k \<and> k < offset s - sh + store_length s then bin_count s k else 0))"
proof (cases "0 < sh")
  case True
  with assms show ?thesis
    by (intro exI[where x = "replicate (nat sh) 0 @ take (length (bins s) - nat sh) (bins s)"] conjI)
      (simp_all add: shift_bins_pos bin_count_shift_pos, simp add: store_length_def)
next
  case False
  with assms show ?thesis
    by (intro exI[where x = "drop (nat (- sh)) (bins s) @ replicate (nat (- sh)) 0"] conjI)
      (simp_all add: shift_bins_nonpos bin_count_shift_nonpos, simp add: store_length_def)
qed

lemma center_bins_Inr:
  assumes "new_min \<le> new_max" "new_max - new_min + 1 \<le> store_length s"
    and "new_min \<le> offset s + store_length s" "offset s \<le> new_max"
  shows "\<exists>b o'. center_bins s new_min new_max = Inr (s\<lparr>bins := b, offset := o'\<rparr>)
      \<and> length b = length (bins s) \<and> o' \<le> new_min \<and> new_max < o' + store_length s
      \<and> (\<forall>k. bin_count (s\<lparr>bins := b, offset := o'\<rparr>) k =
             (if o' \<le> k \<and> k < o' + store_length s then bin_count s k else 0))"
proof -
  let ?L = "store_length s" and ?D = "new_max - new_min + 1"
  let ?sh = "offset s + ?L div 2 - (new_min + ?D div 2)"
  have L0: "0 \<le> ?L" by (simp add: store_length_def)
  have cb: "center_bins s new_min new_max = shift_bins s ?sh"
    using assms L0 by (simp add: center_bins_def Let_def)
  have "\<bar>?sh\<bar> \<le> ?L" using assms by presburger
  then obtain b where b: "shift_bins s ?sh = Inr (s\<lparr>bins := b, offset := offset s - ?sh\<rparr>)"
      "length b = length (bins s)"
      "\<forall>k. bin_count (s\<lparr>bins := b, offset := offset s - ?sh\<rparr>) k =
          (if offset s - ?sh \<le> k \<and> k < offset s - ?sh + ?L then bin_count s k else 0)"
    using shift_bins_Inr by blast
  have "offset s - ?sh \<le> new_min" "new_max < offset s - ?sh + ?L"
    using assms by presburger+
  with b cb show ?thesis
    by (intro exI[where x = b] exI[where x = "offset s - ?sh"]) simp
qed

lemma dense_adjust_Inr:
  assumes "new_min \<le> new_max" "new_max - new_min + 1 \<le> store_length s"
    and "new_min \<le> offset s + store_length s" "offset s \<le> new_max"
    and supp: "\<forall>k. bin_count s k \<noteq> 0 \<longrightarrow> new_min \<le> k \<and> k \<le> new_max"
  shows "\<exists>b o'. dense_adjust s new_min new_max =
                  Inr (s\<lparr>bins := b, offset := o', min_key := new_min, max_key := new_max\<rparr>)
      \<and> length b = length (bins s) \<and> o' \<le> new_min \<and> new_max < o' + store_length s
      \<and> bin_count (s\<lparr>bins := b, offset := o'\<rparr>) = bin_count s"
proof -
  obtain b o' where c: "center_bins s new_min new_max = Inr (s\<lparr>bins := b, offset := o'\<rparr>)"
      "length b = length (bins s)" "o' \<le> new_min" "new_max < o' + store_length s"
      and bc: "\<forall>k. bin_count (s\<lparr>bins := b, offset := o'\<rparr>) k =
             (if o' \<le> k \<and> k < o' + store_length s then bin_count s k else 0)"
    using center_bins_Inr [OF assms(1-4)] by blast
  have "bin_count (s\<lparr>bins := b, offset := o'\<rparr>) = bin_count s"
  proof
    fix k
    show "bin_count (s\<lparr>bins := b, offset := o'\<rparr>) k = bin_count s k"
      using bc supp c(3,4) by (cases "bin_count s k = 0") force+
  qed
  with c show ?thesis
    by (intro exI[where x = b] exI[where x = o']) (simp add: dense_adjust_def)
qed

lemma dense_adjust_wf:
  assumes "0 < chunk_size s" "count s = sum_list (bins s)"
    and "int64_min \<le> new_min" "new_min \<le> new_max" "new_max \<le> int64_max"
    and "new_max - new_min + 1 \<le> store_length s"
    and "new_min \<le> offset s + store_length s" "offset s \<le> new_max"
    and supp: "\<forall>k. bin_count s k \<noteq> 0 \<longrightarrow> new_min \<le> k \<and> k \<le> new_max"
  shows "\<exists>s'. dense_adjust s new_min new_max = Inr s' \<and> dense_wf s' \<and> bin_count s' = bin_count s
      \<and> count s' = count s \<and> chunk_size s' = chunk_size s \<and> min_key s' = new_min \<and> max_key s' = new_max"
proof -
  obtain b o' where a: "dense_adjust s new_min new_max =
                  Inr (s\<lparr>bins := b, offset := o', min_key := new_min, max_key := new_max\<rparr>)"
      "length b = length (bins s)" "o' \<le> new_min" "new_max < o' + store_length s"
      and bc: "bin_count (s\<lparr>bins := b, offset := o'\<rparr>) = bin_count s"
    using dense_adjust_Inr [OF assms(4,6,7,8) supp] by blast
  let ?s' = "s\<lparr>bins := b, offset := o', min_key := new_min, max_key := new_max\<rparr>"
  have bc': "bin_count ?s' = bin_count s"
    using bc by (metis bin_count_upd(1,2) dense_store.update_convs(2,3) dense_store.surjective)
  have "sum_list b = sum_list (bins s)"
    using sum_list_bins_cong [OF bc] by simp
  moreover have "b \<noteq> []" using a(2) assms(4,6) by (auto simp: store_length_def)
  moreover have "bins_within new_min new_max o' b"
    using bin_count_support [of new_min new_max ?s'] bc' supp by simp
  ultimately have "dense_wf ?s'"
    using assms a by (simp add: dense_wf_def store_length_def)
  with a(1) bc' show ?thesis by auto
qed

section \<open>extend_range and add\<close>

lemma dense_get_new_length_ge:
  "0 < chunk_size s \<Longrightarrow> new_max - new_min + 1 \<le> dense_get_new_length s new_min new_max"
  unfolding dense_get_new_length_def Let_def by (rule ceiling_quotient_ge)

lemma wf_support:
  "dense_wf s \<Longrightarrow> bin_count s k \<noteq> 0 \<Longrightarrow> min_key s \<le> k \<and> k \<le> max_key s"
  by (cases "bins s = []") (auto simp: dense_wf_def bin_count_support bin_count_def store_length_def split: if_splits)

lemma bin_count_extend_back [simp]:
  "bin_count (s\<lparr>bins := extend_back_with_zeros (bins s) n\<rparr>) = bin_count s"
  by (auto simp: fun_eq_iff bin_count_def store_length_def extend_back_with_zeros_def nth_append)

lemma bin_count_zeros [simp]:
  "bin_count (s\<lparr>bins := initialize_with_zeros n, offset := o'\<rparr>) = (\<lambda>k. 0)"
  by (auto simp: fun_eq_iff bin_count_def initialize_with_zeros_def store_length_def)

lemma dense_extend_range_Inr:
  assumes wf: "dense_wf s" and k: "int64_min \<le> k1" "k1 \<le> k2" "k2 \<le> int64_max"
  shows "\<exists>s'. dense_extend_range s k1 k2 = Inr s' \<and> dense_wf s' \<and> bin_count s' = bin_count s
      \<and> count s' = count s \<and> chunk_size s' = chunk_size s
      \<and> min_key s' = min k1 (min_key s) \<and> max_key s' = max k2 (max_key s)"
proof -
  let ?nmin = "min k1 (min_key s)" and ?nmax = "max k2 (max_key s)"
  have nm: "min k1 (min k2 (min_key s)) = ?nmin" "max k1 (max k2 (max_key s)) = ?nmax"
    using k by linarith+
  have c0: "0 < chunk_size s" "count s = sum_list (bins s)"
    using wf by (auto simp: dense_wf_def)
  have b64: "int64_min \<le> min_key s" "max_key s \<le> int64_max"
    using wf by (simp_all add: dense_wf_def)
  show ?thesis
  proof (cases "bins s = []")
    case True
    then have mm: "min_key s = int64_max" "max_key s = int64_min" "count s = 0"
      using wf by (auto simp: dense_wf_def)
    let ?L = "dense_get_new_length s k1 k2"
    let ?s1 = "s\<lparr>bins := initialize_with_zeros (nat ?L), offset := k1\<rparr>"
    have L: "k2 - k1 + 1 \<le> ?L" using dense_get_new_length_ge [OF c0(1)] .
    have "\<exists>s'. dense_adjust ?s1 k1 k2 = Inr s' \<and> dense_wf s' \<and> bin_count s' = bin_count ?s1
      \<and> count s' = count ?s1 \<and> chunk_size s' = chunk_size ?s1 \<and> min_key s' = k1 \<and> max_key s' = k2"
      using c0 mm k L by (intro dense_adjust_wf) auto
    moreover have "bin_count s = (\<lambda>k. 0)" using True by (simp add: bin_count_def fun_eq_iff store_length_def)
    moreover have "dense_extend_range s k1 k2 = dense_adjust ?s1 k1 k2"
      using True mm k L by (simp add: dense_extend_range_def extend_range_def is_empty_def store_length_def Let_def)
    ultimately show ?thesis using mm k by auto
  next
    case False
    then have w: "offset s \<le> min_key s" "min_key s \<le> max_key s" "max_key s < offset s + store_length s"
      using wf by (auto simp: dense_wf_def)
    have ne: "\<not> is_empty s" using False by (simp add: is_empty_def store_length_def)
    show ?thesis
    proof (cases "min_key s \<le> ?nmin \<and> ?nmax < offset s + store_length s")
      case True
      let ?s' = "s\<lparr>min_key := ?nmin, max_key := ?nmax\<rparr>"
      have "dense_extend_range s k1 k2 = Inr ?s'"
        using ne True by (simp add: dense_extend_range_def extend_range_def nm Let_def)
      moreover have "dense_wf ?s'"
        using wf False True w k
        by (auto simp: dense_wf_def bin_count_support store_length_def dest: wf_support [OF wf])
      ultimately show ?thesis by simp
    next
      case grow: False
      let ?L = "dense_get_new_length s ?nmin ?nmax"
      let ?s1 = "if store_length s < ?L
                 then s\<lparr>bins := extend_back_with_zeros (bins s) (nat (?L - store_length s))\<rparr> else s"
      have er: "dense_extend_range s k1 k2 = dense_adjust ?s1 ?nmin ?nmax"
        using ne grow unfolding dense_extend_range_def extend_range_def nm Let_def
        by (simp only: if_False)
      have L: "?nmax - ?nmin + 1 \<le> ?L" using dense_get_new_length_ge [OF c0(1)] .
      have len1: "store_length s \<le> store_length ?s1" "?L \<le> store_length ?s1"
        by (auto simp: store_length_def)
      have s1: "bin_count ?s1 = bin_count s" "count ?s1 = count s" "chunk_size ?s1 = chunk_size s"
        "offset ?s1 = offset s" "sum_list (bins ?s1) = sum_list (bins s)"
        by simp_all
      have "\<exists>s'. dense_adjust ?s1 ?nmin ?nmax = Inr s' \<and> dense_wf s' \<and> bin_count s' = bin_count ?s1
        \<and> count s' = count ?s1 \<and> chunk_size s' = chunk_size ?s1 \<and> min_key s' = ?nmin \<and> max_key s' = ?nmax"
      proof (rule dense_adjust_wf)
        show "\<forall>k. bin_count ?s1 k \<noteq> 0 \<longrightarrow> ?nmin \<le> k \<and> k \<le> ?nmax"
          using s1(1) wf_support [OF wf] by fastforce
      qed (use c0 s1 len1 L w k b64 in linarith)+
      with er s1 show ?thesis by auto
    qed
  qed
qed

lemma wf_nonempty: "dense_wf s \<Longrightarrow> min_key s \<le> k \<Longrightarrow> k \<le> max_key s \<Longrightarrow> bins s \<noteq> []"
  by (auto simp: dense_wf_def int64_min_def int64_max_def)

lemma wf_window: "dense_wf s \<Longrightarrow> bins s \<noteq> [] \<Longrightarrow>
    offset s \<le> min_key s \<and> min_key s \<le> max_key s \<and> max_key s < offset s + store_length s"
  by (simp add: dense_wf_def)

lemma wf_add_at:
  assumes wf: "dense_wf s" and k: "min_key s \<le> k" "k \<le> max_key s"
  shows "\<exists>b. bl_add (bins s) (k - offset s) w = Inr b
    \<and> dense_wf (s\<lparr>bins := b, count := count s + w\<rparr>)
    \<and> bin_count (s\<lparr>bins := b, count := count s + w\<rparr>) = (bin_count s)(k := bin_count s k + w)"
proof -
  have ne: "bins s \<noteq> []" using wf_nonempty [OF wf k] .
  note win = wf_window [OF wf ne]
  let ?i = "nat (k - offset s)"
  let ?b = "(bins s)[?i := bins s ! ?i + w]"
  let ?s' = "s\<lparr>bins := ?b, count := count s + w\<rparr>"
  have i: "?i < length (bins s)" using win k by (simp add: store_length_def) linarith
  have add: "bl_add (bins s) (k - offset s) w = Inr ?b"
    using win k by (simp add: bl_add_def store_length_def)
  have bc: "bin_count ?s' = (bin_count s)(k := bin_count s k + w)"
  proof
    fix j
    show "bin_count ?s' j = ((bin_count s)(k := bin_count s k + w)) j"
      using win k i by (auto simp: bin_count_def store_length_def nth_list_update)
  qed
  have "sum_list ?b = sum_list (bins s) + w"
    using i by (rule sum_list_update_add)
  moreover have "bins_within (min_key s) (max_key s) (offset s) ?b"
    using bin_count_support [of "min_key s" "max_key s" ?s'] bc k wf_support [OF wf]
    by (auto split: if_splits)
  ultimately have "dense_wf ?s'"
    using wf ne by (simp add: dense_wf_def store_length_def)
  with add bc show ?thesis by blast
qed

lemma dense_add_Inr:
  assumes wf: "dense_wf s" and k: "int64_min \<le> k" "k \<le> int64_max"
  shows "\<exists>s'. dense_add s k w = Inr s' \<and> dense_wf s'
    \<and> bin_count s' = (bin_count s)(k := bin_count s k + w)
    \<and> count s' = count s + w \<and> chunk_size s' = chunk_size s"
proof -
  obtain s1 where s1: "dense_get_index s k = Inr (s1, k - offset s1)" "dense_wf s1"
      "bin_count s1 = bin_count s" "count s1 = count s" "chunk_size s1 = chunk_size s"
      "min_key s1 \<le> k" "k \<le> max_key s1"
  proof (cases "k < min_key s \<or> max_key s < k")
    case True
    obtain s1 where "dense_extend_range s k k = Inr s1" "dense_wf s1" "bin_count s1 = bin_count s"
        "count s1 = count s" "chunk_size s1 = chunk_size s"
        "min_key s1 = min k (min_key s)" "max_key s1 = max k (max_key s)"
      using dense_extend_range_Inr [OF wf k(1) order_refl k(2)] by blast
    with True that show ?thesis by (simp add: dense_get_index_def)
  next
    case False
    with that wf show ?thesis by (simp add: dense_get_index_def)
  qed
  obtain b where b: "bl_add (bins s1) (k - offset s1) w = Inr b"
      "dense_wf (s1\<lparr>bins := b, count := count s1 + w\<rparr>)"
      "bin_count (s1\<lparr>bins := b, count := count s1 + w\<rparr>) = (bin_count s1)(k := bin_count s1 k + w)"
    using wf_add_at [OF s1(2,6,7)] by blast
  have "dense_add s k w = Inr (s1\<lparr>bins := b, count := count s1 + w\<rparr>)"
    using s1(1) b(1) by (simp add: dense_add_def store_add_def)
  with b s1 show ?thesis by auto
qed

section \<open>merge\<close>

lemma merge_bins_loop_Inr:
  assumes "distinct keys"
    and "\<forall>k\<in>set keys. toff \<le> k \<and> k < toff + int (length tbs) \<and> off \<le> k \<and> k < off + int (length bs)"
  shows "\<exists>bs'. merge_bins_loop bs off tbs toff keys = Inr bs' \<and> length bs' = length bs \<and>
     (\<forall>i<length bs. bs' ! i = bs ! i + (if off + int i \<in> set keys then tbs ! nat (off + int i - toff) else 0))"
  using assms
proof (induction keys arbitrary: bs)
  case Nil
  then show ?case by simp
next
  case (Cons key keys)
  let ?v = "tbs ! nat (key - toff)"
  let ?bs1 = "bs[nat (key - off) := bs ! nat (key - off) + ?v]"
  have step: "merge_bins_loop bs off tbs toff (key # keys) = merge_bins_loop ?bs1 off tbs toff keys"
    using Cons.prems by (simp add: bl_get_def bl_add_def)
  obtain bs' where bs': "merge_bins_loop ?bs1 off tbs toff keys = Inr bs'" "length bs' = length ?bs1"
      "\<forall>i<length ?bs1. bs' ! i = ?bs1 ! i + (if off + int i \<in> set keys then tbs ! nat (off + int i - toff) else 0)"
    using Cons.IH [of ?bs1] Cons.prems by auto
  have "\<forall>i<length bs. bs' ! i = bs ! i + (if off + int i \<in> set (key # keys) then tbs ! nat (off + int i - toff) else 0)"
  proof (intro allI impI)
    fix i assume i: "i < length bs"
    show "bs' ! i = bs ! i + (if off + int i \<in> set (key # keys) then tbs ! nat (off + int i - toff) else 0)"
    proof (cases "i = nat (key - off)")
      case True
      then have "off + int i = key" using Cons.prems by auto
      then show ?thesis using bs'(3) i True Cons.prems(1) by auto
    next
      case False
      then have "off + int i \<noteq> key" by auto
      then show ?thesis using bs'(3) i False by auto
    qed
  qed
  with step bs' show ?case by auto
qed

lemma count_zero_bin_count:
  assumes "dense_wf t" "nonneg_bins t" "count t = 0"
  shows "bin_count t = (\<lambda>k. 0)"
proof -
  have "\<forall>x\<in>set (bins t). x = 0"
    using assms sum_list_nonneg_eq_0_iff [of "bins t"]
    by (simp add: dense_wf_def nonneg_bins_def list_all_iff)
  then show ?thesis
    by (auto simp: fun_eq_iff bin_count_def store_length_def)
qed

lemma dense_copy_simps [simp]:
  "bin_count (dense_copy s t) = bin_count t" "bins (dense_copy s t) = bins t"
  "chunk_size (dense_copy s t) = chunk_size s" "count (dense_copy s t) = count t"
  "min_key (dense_copy s t) = min_key t" "max_key (dense_copy s t) = max_key t"
  "offset (dense_copy s t) = offset t"
  by (simp_all add: dense_copy_def bin_count_def store_length_def fun_eq_iff)

lemma dense_wf_copy: "0 < chunk_size s \<Longrightarrow> dense_wf t \<Longrightarrow> dense_wf (dense_copy s t)"
  unfolding dense_wf_def store_length_def by simp

lemma nonneg_bins_bin_count:
  "nonneg_bins s \<longleftrightarrow> (\<forall>k. 0 \<le> bin_count s k)"
proof
  assume "nonneg_bins s"
  then show "\<forall>k. 0 \<le> bin_count s k"
    by (auto simp: nonneg_bins_def list_all_iff bin_count_def store_length_def)
next
  assume a: "\<forall>k. 0 \<le> bin_count s k"
  have "0 \<le> bins s ! i" if "i < length (bins s)" for i
    using a [rule_format, of "offset s + int i"] that by (simp add: bin_count_def store_length_def)
  then show "nonneg_bins s"
    by (auto simp: nonneg_bins_def list_all_iff in_set_conv_nth)
qed

lemma dense_merge_extend:
  assumes wfs: "dense_wf s" and wft: "dense_wf t" and tne: "bins t \<noteq> []"
  obtains s1 where
    "(if min_key t < min_key s \<or> max_key s < max_key t
      then dense_extend_range s (min_key t) (max_key t) else Inr s) = Inr s1"
    "dense_wf s1" "bin_count s1 = bin_count s" "count s1 = count s" "chunk_size s1 = chunk_size s"
    "min_key s1 \<le> min_key t" "max_key t \<le> max_key s1"
proof (cases "min_key t < min_key s \<or> max_key s < max_key t")
  case True
  have "int64_min \<le> min_key t" "min_key t \<le> max_key t" "max_key t \<le> int64_max"
    using wft tne by (simp_all add: dense_wf_def)
  from dense_extend_range_Inr [OF wfs this] True that show ?thesis by auto
next
  case False
  with wfs that show ?thesis by simp
qed

lemma dense_merge_Inr:
  assumes wfs: "dense_wf s" and wft: "dense_wf t" and nn: "nonneg_bins s" "nonneg_bins t"
  shows "\<exists>s'. dense_merge s t = Inr s' \<and> dense_wf s' \<and> nonneg_bins s'
    \<and> bin_count s' = abs_merge (bin_count s) (bin_count t) \<and> chunk_size s' = chunk_size s"
proof (cases "count t = 0")
  case True
  then have "bin_count t = (\<lambda>k. 0)" using count_zero_bin_count [OF wft nn(2)] by simp
  with True wfs nn show ?thesis by (simp add: dense_merge_def abs_merge_def)
next
  case t_nz: False
  show ?thesis
  proof (cases "count s = 0")
    case True
    then have "bin_count s = (\<lambda>k. 0)" using count_zero_bin_count [OF wfs nn(1)] by simp
    moreover have "0 < chunk_size s" using wfs by (simp add: dense_wf_def)
    then have "dense_wf (dense_copy s t)" using wft by (rule dense_wf_copy)
    moreover have "nonneg_bins (dense_copy s t)" using nn(2) by (simp add: nonneg_bins_def)
    ultimately show ?thesis using True t_nz by (simp add: dense_merge_def abs_merge_def)
  next
    case s_nz: False
    have tne: "bins t \<noteq> []" using t_nz wft by (auto simp: dense_wf_def)
    note twin = wf_window [OF wft tne]
    obtain s1 where s1: "(if min_key t < min_key s \<or> max_key s < max_key t
        then dense_extend_range s (min_key t) (max_key t) else Inr s) = Inr s1"
      "dense_wf s1" "bin_count s1 = bin_count s" "count s1 = count s" "chunk_size s1 = chunk_size s"
      "min_key s1 \<le> min_key t" "max_key t \<le> max_key s1"
      using dense_merge_extend [OF wfs wft tne] by blast
    have s1ne: "bins s1 \<noteq> []" using wf_nonempty [OF s1(2) s1(6)] twin s1(7) by linarith
    note s1win = wf_window [OF s1(2) s1ne]
    have keys: "\<forall>k\<in>set [min_key t..max_key t]. offset t \<le> k \<and> k < offset t + int (length (bins t))
        \<and> offset s1 \<le> k \<and> k < offset s1 + int (length (bins s1))"
      using twin s1win s1(6,7) by (auto simp: store_length_def)
    obtain bs' where bs': "merge_bins_loop (bins s1) (offset s1) (bins t) (offset t) [min_key t..max_key t] = Inr bs'"
        "length bs' = length (bins s1)"
        "\<forall>i<length (bins s1). bs' ! i = bins s1 ! i + (if offset s1 + int i \<in> set [min_key t..max_key t]
            then bins t ! nat (offset s1 + int i - offset t) else 0)"
      using merge_bins_loop_Inr [OF distinct_upto keys] by blast
    let ?s' = "s1\<lparr>bins := bs', count := count s1 + count t\<rparr>"
    have res: "dense_merge s t = Inr ?s'"
      using t_nz s_nz s1(1) bs'(1) by (simp add: dense_merge_def)
    have bc: "bin_count ?s' = abs_merge (bin_count s) (bin_count t)"
    proof
      fix k
      show "bin_count ?s' k = abs_merge (bin_count s) (bin_count t) k"
      proof (cases "offset s1 \<le> k \<and> k < offset s1 + store_length s1")
        case True
        then have i: "nat (k - offset s1) < length (bins s1)" "offset s1 + int (nat (k - offset s1)) = k"
          by (auto simp: store_length_def)
        have bt: "bin_count t k = (if k \<in> set [min_key t..max_key t] then bins t ! nat (k - offset t) else 0)"
          using twin wf_support [OF wft, of k] by (auto simp: bin_count_def store_length_def) blast+
        have b1: "bin_count s1 k = bins s1 ! nat (k - offset s1)"
          using True by (simp add: bin_count_def)
        have "bin_count ?s' k = bs' ! nat (k - offset s1)"
          using True bs'(2) by (simp add: bin_count_def store_length_def)
        also have "\<dots> = bin_count s1 k + bin_count t k"
          using bs'(3) [rule_format, OF i(1)] i(2) b1 bt by simp
        finally show ?thesis using s1(3) by (simp add: abs_merge_def)
      next
        case False
        then have "bin_count t k = 0" using s1win s1(6,7) wf_support [OF wft, of k] by fastforce
        moreover have "bin_count ?s' k = 0" "bin_count s1 k = 0"
          using False bs'(2) by (auto simp: bin_count_def store_length_def)
        ultimately show ?thesis using s1(3) by (simp add: abs_merge_def)
      qed
    qed
    let ?K = "{offset s1..<offset s1 + store_length s1} \<union> {offset t..<offset t + store_length t}"
    have "sum_list bs' = sum (bin_count ?s') ?K"
      using sum_list_bins_superset [of ?K ?s'] bs'(2) by (simp add: store_length_def)
    also have "\<dots> = sum (bin_count s1) ?K + sum (bin_count t) ?K"
      using bc s1(3) by (simp add: abs_merge_def sum.distrib)
    also have "\<dots> = count s1 + count t"
      using sum_list_bins_superset [of ?K s1] sum_list_bins_superset [of ?K t] s1(2) wft
      by (simp add: dense_wf_def)
    finally have sum: "sum_list bs' = count s1 + count t" .
    have supp: "\<forall>k. bin_count ?s' k \<noteq> 0 \<longrightarrow> min_key s1 \<le> k \<and> k \<le> max_key s1"
    proof (intro allI impI)
      fix k assume "bin_count ?s' k \<noteq> 0"
      then have "bin_count s1 k \<noteq> 0 \<or> bin_count t k \<noteq> 0"
        using bc s1(3) by (auto simp: abs_merge_def)
      then show "min_key s1 \<le> k \<and> k \<le> max_key s1"
        using s1(6,7) wf_support [OF s1(2), of k] wf_support [OF wft, of k] by auto
    qed
    have bsne: "bs' \<noteq> []" using bs'(2) s1ne by auto
    have "dense_wf ?s'"
      using bsne s1(2) s1ne s1win sum bs'(2) bin_count_support [of "min_key s1" "max_key s1" ?s'] supp
      by (simp add: dense_wf_def store_length_def)
    moreover have "nonneg_bins ?s'"
      using bc nn by (simp add: nonneg_bins_bin_count abs_merge_def)
    ultimately show ?thesis using res bc s1(5) by auto
  qed
qed

section \<open>key_at_rank\<close>

lemma key_at_rank_loop_find:
  "key_at_rank_loop bs rank lower run idx off lk =
     (case find (\<lambda>i. rank_reached lower rank (run + sum_list (take (Suc i) bs))) [0..<length bs] of
        Some i \<Rightarrow> idx + int i + off
      | None \<Rightarrow> lk)"
proof (induction bs arbitrary: run idx)
  case Nil
  then show ?case by simp
next
  case (Cons b bs)
  let ?Q = "\<lambda>i. rank_reached lower rank (run + sum_list (take (Suc i) (b # bs)))"
  let ?Q' = "\<lambda>i. rank_reached lower rank ((run + b) + sum_list (take (Suc i) bs))"
  have upt: "[0..<length (b # bs)] = 0 # map Suc [0..<length bs]"
    by (simp add: map_Suc_upt upt_conv_Cons del: upt_Suc)
  have Q: "?Q \<circ> Suc = ?Q'" by (simp add: fun_eq_iff add.assoc)
  have fnd: "find ?Q [0..<length (b # bs)] =
      (if ?Q 0 then Some 0 else map_option Suc (find ?Q' [0..<length bs]))"
    by (simp only: upt find.simps find_map Q)
  have Q0: "?Q 0 = rank_reached lower rank (run + b)" by simp
  have loop: "key_at_rank_loop (b # bs) rank lower run idx off lk =
      (if rank_reached lower rank (run + b) then idx + off
       else key_at_rank_loop bs rank lower (run + b) (idx + 1) off lk)"
    by (simp add: rank_reached_def Let_def)
  show ?case
    unfolding loop fnd Q0 Cons.IH
    by (cases "rank_reached lower rank (run + b)") (auto split: option.split)
qed

lemma cum_count_mono:
  assumes "nonneg_bins s" "a \<le> b"
  shows "cum_count s a \<le> cum_count s b"
  unfolding cum_count_def
  using assms by (intro sum_mono2) (auto simp: nonneg_bins_bin_count)

lemma cum_count_take:
  assumes "j < length (bins s)"
  shows "sum_list (take (Suc j) (bins s)) = cum_count s (offset s + int j)"
proof -
  have "{offset s..<offset s + int (Suc j)} = {offset s..offset s + int j}" by auto
  then show ?thesis using sum_list_take_bins [of "Suc j" s] assms by (simp add: cum_count_def)
qed

lemma cum_count_below: "key < offset s \<Longrightarrow> cum_count s key = 0"
  by (simp add: cum_count_def)

lemma cum_count_above:
  assumes "offset s + store_length s - 1 \<le> key"
  shows "cum_count s key = sum_list (bins s)"
proof -
  have "sum_list (bins s) = sum (bin_count s) {offset s..key}"
    by (rule sum_list_bins_superset) (use assms in auto)
  then show ?thesis by (simp add: cum_count_def)
qed

lemma key_at_rank_cum:
  assumes wf: "dense_wf s" and nn: "nonneg_bins s" and r: "0 \<le> rank"
    and hi: "rank < cum_count s key" and lo: "cum_count s (key - 1) \<le> rank"
  shows "key_at_rank s rank True = key"
proof -
  let ?P = "\<lambda>i. rank_reached True rank (0 + sum_list (take (Suc i) (bins s)))"
  have k1: "offset s \<le> key"
    using hi r cum_count_below [of key s] by force
  have k2: "key < offset s + store_length s"
  proof (rule ccontr)
    assume "\<not> key < offset s + store_length s"
    then have "cum_count s (key - 1) = sum_list (bins s)" "cum_count s key = sum_list (bins s)"
      using cum_count_above [of s] by simp_all
    then show False using hi lo by simp
  qed
  define i where "i = nat (key - offset s)"
  have il: "i < length (bins s)" and ki: "key = offset s + int i"
    using k1 k2 by (simp_all add: i_def store_length_def)
  have Pi: "?P i"
    using hi cum_count_take [OF il] ki by (simp add: rank_reached_def)
  have nP: "\<not> ?P j" if "j < i" for j
  proof -
    have "cum_count s (offset s + int j) \<le> cum_count s (key - 1)"
      using that ki by (intro cum_count_mono nn) simp
    then show ?thesis
      using lo cum_count_take [of j s] that il by (simp add: rank_reached_def)
  qed
  have "find ?P [0..<length (bins s)] = Some i"
    using Pi nP il by (auto simp: find_Some_iff intro!: exI [of _ i])
  then show ?thesis
    by (simp add: key_at_rank_def key_at_rank_loop_find ki add.commute)
qed

section \<open>Runs of adds\<close>

lemma abs_adds_Cons [simp]: "abs_adds ((k, w) # kws) f = abs_adds kws (abs_add f k w)"
  by (simp add: abs_adds_def)

lemma abs_adds_append: "abs_adds (xs @ ys) f = abs_adds ys (abs_adds xs f)"
  by (simp add: abs_adds_def)

lemma abs_adds_merge: "abs_adds kws f = abs_merge f (abs_adds kws (\<lambda>k. 0))"
proof (induction kws arbitrary: f)
  case Nil
  then show ?case by (simp add: abs_adds_def abs_merge_def)
next
  case (Cons kw kws)
  obtain k w where kw: "kw = (k, w)" by fastforce
  let ?Z = "abs_adds kws (\<lambda>k. 0)"
  have "abs_adds kws (abs_add f k w) = abs_merge (abs_add f k w) ?Z"
    by (rule Cons.IH)
  also have "\<dots> = abs_merge f (abs_merge (abs_add (\<lambda>k. 0) k w) ?Z)"
    by (simp add: abs_merge_def abs_add_def fun_eq_iff)
  also have "abs_merge (abs_add (\<lambda>k. 0) k w) ?Z = abs_adds kws (abs_add (\<lambda>k. 0) k w)"
    by (rule Cons.IH [symmetric])
  finally have "abs_adds kws (abs_add f k w) = abs_merge f (abs_adds kws (abs_add (\<lambda>k. 0) k w))" .
  then show ?case by (simp add: kw)
qed

lemma nonneg_abs_add: "\<forall>k. 0 \<le> f k \<Longrightarrow> 0 \<le> w \<Longrightarrow> \<forall>k. 0 \<le> abs_add f key w k"
  by (simp add: abs_add_def)

lemma dense_add_all_Inr:
  assumes "dense_wf s" "keys_in_range kws"
  shows "\<exists>s'. dense_add_all s kws = Inr s' \<and> dense_wf s' \<and> bin_count s' = abs_adds kws (bin_count s)
    \<and> count s' = count s + sum_list (map snd kws) \<and> chunk_size s' = chunk_size s
    \<and> (nonneg_bins s \<and> list_all (\<lambda>kw. 0 \<le> snd kw) kws \<longrightarrow> nonneg_bins s')"
  using assms
proof (induction kws arbitrary: s)
  case Nil
  then show ?case by (simp add: abs_adds_def)
next
  case (Cons kw kws)
  obtain k w where kw: "kw = (k, w)" by fastforce
  have k: "int64_min \<le> k" "k \<le> int64_max" "keys_in_range kws"
    using Cons.prems(2) by (simp_all add: kw keys_in_range_def)
  obtain s1 where s1: "dense_add s k w = Inr s1" "dense_wf s1"
      "bin_count s1 = abs_add (bin_count s) k w" "count s1 = count s + w" "chunk_size s1 = chunk_size s"
    using dense_add_Inr [OF Cons.prems(1) k(1,2)] by (auto simp: abs_add_def)
  obtain s' where s': "dense_add_all s1 kws = Inr s'" "dense_wf s'" "bin_count s' = abs_adds kws (bin_count s1)"
      "count s' = count s1 + sum_list (map snd kws)" "chunk_size s' = chunk_size s1"
      "nonneg_bins s1 \<and> list_all (\<lambda>kw. 0 \<le> snd kw) kws \<longrightarrow> nonneg_bins s'"
    using Cons.IH [OF s1(2) k(3)] by blast
  have "nonneg_bins s \<and> 0 \<le> w \<longrightarrow> nonneg_bins s1"
    using s1(3) by (simp add: nonneg_bins_bin_count nonneg_abs_add)
  with s1 s' show ?case by (auto simp: kw)
qed


lemma new_dense_store_wf: "0 < c \<Longrightarrow> dense_wf (new_dense_store c)"
  by (simp add: dense_wf_def new_dense_store_def int64_min_def int64_max_def)

lemma new_dense_store_simps [simp]:
  "bin_count (new_dense_store c) = (\<lambda>k. 0)" "nonneg_bins (new_dense_store c)"
  "count (new_dense_store c) = 0" "bins (new_dense_store c) = []"
  by (simp_all add: new_dense_store_def bin_count_def store_length_def fun_eq_iff nonneg_bins_def)

lemma abs_adds_unit:
  "abs_adds (map (\<lambda>k. (k, 1)) ks) f = (\<lambda>k. f k + real (count_list ks k))"
proof (induction ks arbitrary: f)
  case Nil
  then show ?case by (simp add: abs_adds_def)
next
  case (Cons x ks)
  then show ?case by (auto simp: abs_add_def)
qed

lemma sum_count_list:
  fixes lo hi :: index
  shows "(\<Sum>k\<in>{lo..hi}. real (count_list ks k)) = real (length (filter (\<lambda>k. lo \<le> k \<and> k \<le> hi) ks))"
proof (induction ks)
  case Nil
  then show ?case by simp
next
  case (Cons x ks)
  have "(\<Sum>k\<in>{lo..hi}. real (count_list (x # ks) k)) =
        (\<Sum>k\<in>{lo..hi}. real (count_list ks k)) + (\<Sum>k\<in>{lo..hi}. if x = k then 1 else 0)"
  proof -
    have "\<And>k. real (count_list (x # ks) k) = real (count_list ks k) + (if x = k then 1 else 0)"
      by simp
    then show ?thesis by (simp only: sum.distrib)
  qed
  moreover have "(\<Sum>k\<in>{lo..hi}. if x = k then 1 else 0 :: real) = (if lo \<le> x \<and> x \<le> hi then 1 else 0)"
    by (subst sum.delta') simp_all
  ultimately show ?case using Cons by simp
qed

lemma store_key_at_rank_sorted:
  fixes f :: "'a::linorder \<Rightarrow> index"
  assumes wf: "dense_wf st" and nn: "nonneg_bins st"
    and bc: "bin_count st = (\<lambda>k. real (count_list (map f xs) k))"
    and mono: "\<And>x y. x \<in> set xs \<Longrightarrow> y \<in> set xs \<Longrightarrow> x \<le> y \<Longrightarrow> f x \<le> f y"
    and r: "0 \<le> rank" "rank < real (length xs)"
  shows "key_at_rank st rank True = f (sort xs ! nat \<lfloor>rank\<rfloor>)"
proof -
  let ?ks = "map f xs"
  let ?j = "nat \<lfloor>rank\<rfloor>"
  let ?K = "f (sort xs ! ?j)"
  have j: "?j < length xs" "rank < real ?j + 1" "real ?j \<le> rank"
    using r by (simp_all add: nat_less_iff floor_less_iff)
  have off: "offset st \<le> k" if "k \<in> set ?ks" for k
  proof -
    have "bin_count st k \<noteq> 0" using that bc by (simp add: count_list_0_iff)
    then show ?thesis by (auto simp: bin_count_def split: if_splits)
  qed
  have cum: "cum_count st key = real (length (filter (\<lambda>k. k \<le> key) ?ks))" for key
  proof -
    have "filter (\<lambda>k. offset st \<le> k \<and> k \<le> key) ?ks = filter (\<lambda>k. k \<le> key) ?ks"
      using off by (intro filter_cong) auto
    then show ?thesis by (simp add: cum_count_def bc sum_count_list del: filter_map)
  qed
  have lt: "filter (\<lambda>k. k \<le> ?K - 1) ?ks = filter (\<lambda>k. k < ?K) ?ks"
    by (intro filter_cong) auto
  note c = sorted_rank_counts [of xs f, OF mono j(1)]
  show ?thesis
  proof (rule key_at_rank_cum [OF wf nn r(1)])
    show "rank < cum_count st ?K" using c(1) j(2) by (simp add: cum del: filter_map)
    show "cum_count st (?K - 1) \<le> rank" using c(2) j(3) by (simp add: cum lt del: filter_map)
  qed
qed

section \<open>Properties of the dense store\<close>

text \<open>
  C1. \<open>add(key, weight)\<close> refines the abstract counter update: on a well-formed
  store and a key in the \<open>int64_t\<close> range it returns without an out-of-range deque
  access, keeps the invariant, and increases the counter of exactly that key by
  the weight.
\<close>

theorem dense_add_refines:
  assumes "dense_wf s" "int64_min \<le> key" "key \<le> int64_max"
  shows "\<exists>s'. dense_add s key weight = Inr s' \<and> dense_wf s'
           \<and> bin_count s' = abs_add (bin_count s) key weight"
  using dense_add_Inr [OF assms] by (auto simp: abs_add_def)

theorem dense_add_refines_witness:
  "dense_wf (new_dense_store 128) \<and> int64_min \<le> (4::int) \<and> (4::int) \<le> int64_max \<and>
   (\<exists>s'. dense_add (new_dense_store 128) 4 1 = Inr s' \<and> dense_wf s'
      \<and> bin_count s' = abs_add (bin_count (new_dense_store 128)) 4 1)"
proof -
  have h: "dense_wf (new_dense_store 128)" "int64_min \<le> (4::int)" "(4::int) \<le> int64_max"
    by (simp_all add: new_dense_store_wf int64_min_def int64_max_def)
  show ?thesis using h dense_add_refines [OF h] by blast
qed

text \<open>
  C2. \<open>merge\<close> refines the pointwise sum of the abstract counters: merging two
  well-formed stores with non-negative counters returns without an
  out-of-range access, keeps the invariant, and every key's counter is the sum of
  its counters in the two stores.
\<close>

theorem dense_merge_refines:
  assumes "dense_wf s" "dense_wf t" "nonneg_bins s" "nonneg_bins t"
  shows "\<exists>s'. dense_merge s t = Inr s' \<and> dense_wf s'
           \<and> bin_count s' = abs_merge (bin_count s) (bin_count t)"
  using dense_merge_Inr [OF assms] by blast

theorem dense_merge_refines_witness:
  "dense_wf (\<lparr>count = 1, min_key = 4, max_key = 4, chunk_size = 1, offset = 4, bins = [1]\<rparr>) \<and>
   dense_wf (\<lparr>count = 2, min_key = 6, max_key = 6, chunk_size = 1, offset = 6, bins = [2]\<rparr>) \<and>
   nonneg_bins (\<lparr>count = 1, min_key = 4, max_key = 4, chunk_size = 1, offset = 4, bins = [1]\<rparr>) \<and>
   nonneg_bins (\<lparr>count = 2, min_key = 6, max_key = 6, chunk_size = 1, offset = 6, bins = [2]\<rparr>) \<and>
   (\<exists>s'. dense_merge (\<lparr>count = 1, min_key = 4, max_key = 4, chunk_size = 1, offset = 4, bins = [1]\<rparr>)
                      (\<lparr>count = 2, min_key = 6, max_key = 6, chunk_size = 1, offset = 6, bins = [2]\<rparr>) = Inr s'
      \<and> dense_wf s' \<and> bin_count s' = abs_merge (bin_count (\<lparr>count = 1, min_key = 4, max_key = 4, chunk_size = 1, offset = 4, bins = [1]\<rparr>))
                                           (bin_count (\<lparr>count = 2, min_key = 6, max_key = 6, chunk_size = 1, offset = 6, bins = [2::real]\<rparr>)))"
proof -
  have h: "dense_wf (\<lparr>count = 1, min_key = 4, max_key = 4, chunk_size = 1, offset = 4, bins = [1]\<rparr>)"
    "dense_wf (\<lparr>count = 2, min_key = 6, max_key = 6, chunk_size = 1, offset = 6, bins = [2]\<rparr>)"
    "nonneg_bins (\<lparr>count = 1, min_key = 4, max_key = 4, chunk_size = 1, offset = 4, bins = [1]\<rparr>)"
    "nonneg_bins (\<lparr>count = 2, min_key = 6, max_key = 6, chunk_size = 1, offset = 6, bins = [2]\<rparr>)"
    by (simp_all add: dense_wf_def nonneg_bins_def store_length_def int64_min_def int64_max_def)
  show ?thesis using h dense_merge_refines [OF h] by blast
qed

text \<open>
  C3. Sum preservation: after any sequence of adds with keys in the \<open>int64_t\<close>
  range, the sum of the bins equals the initial sum plus the sum of the weights,
  and the store's \<open>count_\<close> agrees with it.
\<close>

theorem dense_adds_sum:
  assumes "dense_wf s" "keys_in_range kws"
  shows "\<exists>s'. dense_add_all s kws = Inr s' \<and> dense_wf s'
           \<and> bl_sum (bins s') = Inr (sum_list (bins s) + sum_list (map snd kws))
           \<and> count s' = count s + sum_list (map snd kws)"
proof -
  obtain s' where s': "dense_add_all s kws = Inr s'" "dense_wf s'" "count s' = count s + sum_list (map snd kws)"
    using dense_add_all_Inr [OF assms] by blast
  moreover have "count s = sum_list (bins s)" "count s' = sum_list (bins s')"
    using assms(1) s'(2) by (simp_all add: dense_wf_def)
  ultimately show ?thesis by auto
qed

theorem dense_adds_sum_witness:
  "dense_wf (new_dense_store 4) \<and> keys_in_range [(4, 1), (10, 1), (100, 1)] \<and>
   (\<exists>s'. dense_add_all (new_dense_store 4) [(4, 1), (10, 1), (100, 1)] = Inr s' \<and> dense_wf s'
       \<and> bl_sum (bins s') = Inr (sum_list (bins (new_dense_store 4)) + sum_list (map snd [(4::int, 1::real), (10, 1), (100, 1)]))
       \<and> count s' = count (new_dense_store 4) + sum_list (map snd [(4::int, 1::real), (10, 1), (100, 1)]))"
proof -
  have h: "dense_wf (new_dense_store 4)" "keys_in_range [(4, 1), (10, 1), (100::int, 1::real)]"
    by (simp_all add: new_dense_store_wf keys_in_range_def int64_min_def int64_max_def)
  show ?thesis using h dense_adds_sum [OF h] by blast
qed

text \<open>
  C4. Merge equivalence (the store tests' \<open>test_merging\<close>): building one store
  from the adds of \<open>A\<close> and another from those of \<open>B\<close> and merging the second into
  the first gives the same counters, and the same count, as adding \<open>A @ B\<close> into
  one store.
\<close>

theorem dense_merge_equiv:
  assumes "0 < c" "keys_in_range (A @ B)" "list_all (\<lambda>kw. 0 \<le> snd kw) (A @ B)"
  shows "\<exists>sa sb sab m. dense_add_all (new_dense_store c) A = Inr sa
     \<and> dense_add_all (new_dense_store c) B = Inr sb
     \<and> dense_add_all (new_dense_store c) (A @ B) = Inr sab
     \<and> dense_merge sa sb = Inr m \<and> bin_count m = bin_count sab \<and> count m = count sab"
proof -
  have wf0: "dense_wf (new_dense_store c)" using assms(1) by (rule new_dense_store_wf)
  have r: "keys_in_range A" "keys_in_range B" and nn: "list_all (\<lambda>kw. 0 \<le> snd kw) A" "list_all (\<lambda>kw. 0 \<le> snd kw) B"
    using assms(2,3) by (simp_all add: keys_in_range_def)
  obtain sa where sa: "dense_add_all (new_dense_store c) A = Inr sa" "dense_wf sa"
      "bin_count sa = abs_adds A (\<lambda>k. 0)" "nonneg_bins sa"
    using dense_add_all_Inr [OF wf0 r(1)] nn(1) by auto
  obtain sb where sb: "dense_add_all (new_dense_store c) B = Inr sb" "dense_wf sb"
      "bin_count sb = abs_adds B (\<lambda>k. 0)" "nonneg_bins sb"
    using dense_add_all_Inr [OF wf0 r(2)] nn(2) by auto
  obtain sab where sab: "dense_add_all (new_dense_store c) (A @ B) = Inr sab" "dense_wf sab"
      "bin_count sab = abs_adds (A @ B) (\<lambda>k. 0)"
    using dense_add_all_Inr [OF wf0 assms(2)] by auto
  obtain m where m: "dense_merge sa sb = Inr m" "dense_wf m"
      "bin_count m = abs_merge (bin_count sa) (bin_count sb)"
    using dense_merge_Inr [OF sa(2) sb(2) sa(4) sb(4)] by blast
  have bc: "bin_count m = bin_count sab"
    using m(3) sa(3) sb(3) sab(3) abs_adds_merge [of B "abs_adds A (\<lambda>k. 0)"]
    by (simp add: abs_adds_append)
  have "count m = count sab"
    using sum_list_bins_cong [OF bc] m(2) sab(2) by (simp add: dense_wf_def)
  with sa sb sab m bc show ?thesis by blast
qed

theorem dense_merge_equiv_witness:
  "0 < (4::int) \<and> keys_in_range ([(4, 1)] @ [(100, 2)]) \<and> list_all (\<lambda>kw. 0 \<le> snd kw) ([(4::int, 1::real)] @ [(100, 2)]) \<and>
   (\<exists>sa sb sab m. dense_add_all (new_dense_store 4) [(4, 1)] = Inr sa
     \<and> dense_add_all (new_dense_store 4) [(100, 2)] = Inr sb
     \<and> dense_add_all (new_dense_store 4) ([(4, 1)] @ [(100, 2)]) = Inr sab
     \<and> dense_merge sa sb = Inr m \<and> bin_count m = bin_count sab \<and> count m = count sab)"
proof -
  have h: "0 < (4::int)" "keys_in_range ([(4, 1)] @ [(100::int, 2::real)])"
    "list_all (\<lambda>kw. 0 \<le> snd kw) ([(4::int, 1::real)] @ [(100, 2)])"
    by (simp_all add: keys_in_range_def int64_min_def int64_max_def)
  show ?thesis using h dense_merge_equiv [OF h] by blast
qed

text \<open>
  C5. \<open>key_at_rank\<close>'s loop computes the reference definition: the key of the
  first bin at which the running count passes the rank (\<open>running > rank\<close> when
  \<open>lower\<close>, \<open>running \<ge> rank + 1\<close> otherwise), and \<open>max_key_\<close> when no bin does.
\<close>

theorem key_at_rank_equiv: "key_at_rank s rank lower = key_at_rank_ref s rank lower"
  by (simp add: key_at_rank_def key_at_rank_ref_def key_at_rank_loop_find add.commute split: option.split)

text \<open>
  On the store the tests build from keys 4, 10 and 100, \<open>key_at_rank\<close>
  returns the values \<open>test_key_at_rank\<close> expects, decimal ranks included.
\<close>

theorem key_at_rank_test_values:
  "map_sum id (\<lambda>s. [key_at_rank s 0 True, key_at_rank s 1 True, key_at_rank s 2 True,
      key_at_rank s 0 False, key_at_rank s 1 False, key_at_rank s 2 False,
      key_at_rank s 0.5 True, key_at_rank s 1.5 True, key_at_rank s 2.5 True,
      key_at_rank s (-0.5) False, key_at_rank s 0.5 False, key_at_rank s 1.5 False])
    (dense_add_all (new_dense_store kChunkSize) [(4, 1), (10, 1), (100, 1)])
   = Inr [4, 10, 100, 4, 10, 100, 4, 10, 100, 4, 10, 100]"
  by code_simp

text \<open>
  Empty iff zero: for a well-formed store with non-negative counters,
  \<open>bins().has_only_zeros()\<close> holds exactly when \<open>count_\<close> is zero.
\<close>

theorem dense_only_zeros_iff_count:
  assumes "dense_wf s" "nonneg_bins s"
  shows "has_only_zeros (bins s) \<longleftrightarrow> count s = 0"
  using assms sum_list_nonneg_eq_0_iff [of "bins s"]
  by (auto simp: dense_wf_def nonneg_bins_def has_only_zeros_iff list_all_iff)

theorem dense_only_zeros_iff_count_witness:
  "dense_wf (new_dense_store 4) \<and> nonneg_bins (new_dense_store 4) \<and>
   (has_only_zeros (bins (new_dense_store 4)) \<longleftrightarrow> count (new_dense_store 4) = 0)"
proof -
  have h: "dense_wf (new_dense_store 4)" "nonneg_bins (new_dense_store 4)"
    by (simp_all add: new_dense_store_wf)
  show ?thesis using h dense_only_zeros_iff_count [OF h] by blast
qed

end
