(* ===== verification/CollapsingStore.thy ===== *)
theory CollapsingStore
  imports DenseStore
begin

text \<open>
  \<open>CollapsingLowestDenseStore\<close> and \<open>CollapsingHighestDenseStore\<close> (ddsketch.h):
  dense stores bounded by \<open>bin_limit_\<close> that fold the lowest (resp. highest) bins
  into the first (resp. last) bin once the key range no longer fits. Both
  classes add the same two data members to \<open>BaseDenseStore\<close>, so they share one
  record extension of \<open>dense_store\<close>; each class's overrides of
  \<open>get_new_length\<close>, \<open>get_index\<close>, \<open>adjust\<close>, \<open>copy\<close> and \<open>merge\<close> are
  definitions prefixed \<open>lowest_\<close> and \<open>highest_\<close>, and the inherited
  \<open>extend_range\<close> and \<open>add\<close> of DenseStore.thy are applied to them.
\<close>

section \<open>State\<close>

record collapsing_store = dense_store +
  bin_limit :: index
  is_collapsed :: bool

definition new_collapsing_store :: "index \<Rightarrow> index \<Rightarrow> collapsing_store" where
  "new_collapsing_store limit chunk_sz =
     \<lparr>count = 0, min_key = int64_max, max_key = int64_min, chunk_size = chunk_sz, offset = 0,
      bins = [], bin_limit = limit, is_collapsed = False\<rparr>"

definition collapsing_copy :: "'a collapsing_store_scheme \<Rightarrow> 'b collapsing_store_scheme \<Rightarrow> 'a collapsing_store_scheme" where
  "collapsing_copy s t =
     s\<lparr>count := count t, min_key := min_key t, max_key := max_key t, offset := offset t,
       bins := bins t, bin_limit := bin_limit t, is_collapsed := is_collapsed t\<rparr>"

definition collapsing_get_new_length :: "'a collapsing_store_scheme \<Rightarrow> index \<Rightarrow> index \<Rightarrow> index" where
  "collapsing_get_new_length s new_min_key new_max_key =
     (let desired_length = new_max_key - new_min_key + 1;
          num_chunks = \<lceil>real_of_int desired_length / real_of_int (chunk_size s)\<rceil>
      in min (chunk_size s * num_chunks) (bin_limit s))"

section \<open>CollapsingLowestDenseStore\<close>

definition lowest_adjust :: "'a collapsing_store_scheme \<Rightarrow> index \<Rightarrow> index \<Rightarrow> 'a collapsing_store_scheme res" where
  "lowest_adjust s new_min_key new_max_key =
     (if store_length s < new_max_key - new_min_key + 1 then
        (let new_min_key = new_max_key - store_length s + 1 in
         res_bind
          (if max_key s \<le> new_min_key then
             res_bind (bl_set (initialize_with_zeros (nat (store_length s))) 0 (count s))
               (\<lambda>b. Inr (s\<lparr>offset := new_min_key, min_key := new_min_key, bins := b\<rparr>))
           else
             (let shift = offset s - new_min_key in
              if shift < 0 then
                (let collapse_start_index = min_key s - offset s;
                     collapse_end_index = new_min_key - offset s
                 in res_bind (collapsed_count (bins s) collapse_start_index collapse_end_index)
                     (\<lambda>cc. res_bind (replace_range_with_zeros (bins s) collapse_start_index collapse_end_index
                                      (nat (new_min_key - min_key s)))
                       (\<lambda>b1. res_bind (bl_add b1 collapse_end_index cc)
                         (\<lambda>b2. shift_bins (s\<lparr>bins := b2, min_key := new_min_key\<rparr>) shift))))
              else shift_bins (s\<lparr>min_key := new_min_key\<rparr>) shift))
          (\<lambda>s'. Inr (s'\<lparr>max_key := new_max_key, is_collapsed := True\<rparr>)))
      else
        res_bind (center_bins s new_min_key new_max_key)
          (\<lambda>s'. Inr (s'\<lparr>min_key := new_min_key, max_key := new_max_key\<rparr>)))"

definition lowest_extend_range :: "'a collapsing_store_scheme \<Rightarrow> index \<Rightarrow> index \<Rightarrow> 'a collapsing_store_scheme res" where
  "lowest_extend_range = extend_range collapsing_get_new_length lowest_adjust"

definition lowest_get_index :: "'a collapsing_store_scheme \<Rightarrow> index \<Rightarrow> ('a collapsing_store_scheme \<times> index) res" where
  "lowest_get_index s key =
     (if key < min_key s then
        (if is_collapsed s then Inr (s, 0)
         else res_bind (lowest_extend_range s key key)
                (\<lambda>s'. if is_collapsed s' then Inr (s', 0) else Inr (s', key - offset s')))
      else if max_key s < key then
        res_bind (lowest_extend_range s key key) (\<lambda>s'. Inr (s', key - offset s'))
      else Inr (s, key - offset s))"

definition lowest_add :: "'a collapsing_store_scheme \<Rightarrow> index \<Rightarrow> real_value \<Rightarrow> 'a collapsing_store_scheme res" where
  "lowest_add = store_add lowest_get_index"

text \<open>
  \<open>merge\<close>: the counters of the other store below the receiver's \<open>min_key_\<close> are
  summed into the receiver's first bin. The sum is taken by
  \<open>bins_.collapsed_count(...)\<close>, over the receiver's own bins at indices computed
  from the other store's offset; the model keeps that.
\<close>

definition lowest_merge :: "'a collapsing_store_scheme \<Rightarrow> 'b collapsing_store_scheme \<Rightarrow> 'a collapsing_store_scheme res" where
  "lowest_merge s t =
     (if count t = 0 then Inr s
      else if count s = 0 then Inr (collapsing_copy s t)
      else
        res_bind (if min_key t < min_key s \<or> max_key s < max_key t
                  then lowest_extend_range s (min_key t) (max_key t) else Inr s)
          (\<lambda>s1. let collapse_start_idx = min_key t - offset t;
                    collapse_end_idx = min (min_key s1) (max_key t + 1) - offset t
                in res_bind
                    (if collapse_start_idx < collapse_end_idx then
                       res_bind (collapsed_count (bins s1) collapse_start_idx collapse_end_idx)
                         (\<lambda>cc. res_bind (bl_add (bins s1) 0 cc) (\<lambda>b. Inr (s1\<lparr>bins := b\<rparr>, collapse_end_idx)))
                     else Inr (s1, collapse_start_idx))
                    (\<lambda>(s2, collapse_end_idx).
                       res_bind (merge_bins_loop (bins s2) (offset s2) (bins t) (offset t)
                                  [collapse_end_idx + offset t..max_key t])
                         (\<lambda>b. Inr (s2\<lparr>bins := b, count := count s2 + count t\<rparr>)))))"

section \<open>CollapsingHighestDenseStore\<close>

definition highest_adjust :: "'a collapsing_store_scheme \<Rightarrow> index \<Rightarrow> index \<Rightarrow> 'a collapsing_store_scheme res" where
  "highest_adjust s new_min_key new_max_key =
     (if store_length s < new_max_key - new_min_key + 1 then
        (let new_max_key = new_min_key + store_length s - 1 in
         res_bind
          (if new_max_key \<le> min_key s then
             res_bind (bl_set (initialize_with_zeros (nat (store_length s))) (store_length s - 1) (count s))
               (\<lambda>b. Inr (s\<lparr>offset := new_min_key, max_key := new_max_key, bins := b\<rparr>))
           else
             (let shift = offset s - new_min_key in
              if 0 < shift then
                (let collapse_start_index = new_max_key - offset s + 1;
                     collapse_end_index = max_key s - offset s + 1
                 in res_bind (collapsed_count (bins s) collapse_start_index collapse_end_index)
                     (\<lambda>cc. res_bind (replace_range_with_zeros (bins s) collapse_start_index collapse_end_index
                                      (nat (max_key s - new_max_key)))
                       (\<lambda>b1. res_bind (bl_add b1 (collapse_start_index - 1) cc)
                         (\<lambda>b2. shift_bins (s\<lparr>bins := b2, max_key := new_max_key\<rparr>) shift))))
              else shift_bins (s\<lparr>max_key := new_max_key\<rparr>) shift))
          (\<lambda>s'. Inr (s'\<lparr>min_key := new_min_key, is_collapsed := True\<rparr>)))
      else
        res_bind (center_bins s new_min_key new_max_key)
          (\<lambda>s'. Inr (s'\<lparr>min_key := new_min_key, max_key := new_max_key\<rparr>)))"

definition highest_extend_range :: "'a collapsing_store_scheme \<Rightarrow> index \<Rightarrow> index \<Rightarrow> 'a collapsing_store_scheme res" where
  "highest_extend_range = extend_range collapsing_get_new_length highest_adjust"

definition highest_get_index :: "'a collapsing_store_scheme \<Rightarrow> index \<Rightarrow> ('a collapsing_store_scheme \<times> index) res" where
  "highest_get_index s key =
     (if max_key s < key then
        (if is_collapsed s then Inr (s, store_length s - 1)
         else res_bind (highest_extend_range s key key)
                (\<lambda>s'. if is_collapsed s' then Inr (s', store_length s' - 1) else Inr (s', key - offset s')))
      else if key < min_key s then
        res_bind (highest_extend_range s key key) (\<lambda>s'. Inr (s', key - offset s'))
      else Inr (s, key - offset s))"

definition highest_add :: "'a collapsing_store_scheme \<Rightarrow> index \<Rightarrow> real_value \<Rightarrow> 'a collapsing_store_scheme res" where
  "highest_add = store_add highest_get_index"

definition highest_merge :: "'a collapsing_store_scheme \<Rightarrow> 'b collapsing_store_scheme \<Rightarrow> 'a collapsing_store_scheme res" where
  "highest_merge s t =
     (if count t = 0 then Inr s
      else if count s = 0 then Inr (collapsing_copy s t)
      else
        res_bind (if min_key t < min_key s \<or> max_key s < max_key t
                  then highest_extend_range s (min_key t) (max_key t) else Inr s)
          (\<lambda>s1. let collapse_end_idx = max_key t - offset t + 1;
                    collapse_start_idx = max (max_key s1 + 1) (min_key t) - offset t
                in res_bind
                    (if collapse_start_idx < collapse_end_idx then
                       res_bind (collapsed_count (bins s1) collapse_start_idx collapse_end_idx)
                         (\<lambda>cc. res_bind (bl_add (bins s1) (store_length s1 - 1) cc)
                           (\<lambda>b. Inr (s1\<lparr>bins := b\<rparr>, collapse_start_idx)))
                     else Inr (s1, collapse_end_idx))
                    (\<lambda>(s2, collapse_start_idx).
                       res_bind (merge_bins_loop (bins s2) (offset s2) (bins t) (offset t)
                                  [min_key t..collapse_start_idx + offset t - 1])
                         (\<lambda>b. Inr (s2\<lparr>bins := b, count := count s2 + count t\<rparr>)))))"

text \<open>Runs of adds, as the collapsing-store tests issue them.\<close>

fun lowest_add_all :: "'a collapsing_store_scheme \<Rightarrow> (index \<times> real_value) list \<Rightarrow> 'a collapsing_store_scheme res" where
  "lowest_add_all s [] = Inr s"
| "lowest_add_all s ((key, weight) # kws) = res_bind (lowest_add s key weight) (\<lambda>s'. lowest_add_all s' kws)"

fun highest_add_all :: "'a collapsing_store_scheme \<Rightarrow> (index \<times> real_value) list \<Rightarrow> 'a collapsing_store_scheme res" where
  "highest_add_all s [] = Inr s"
| "highest_add_all s ((key, weight) # kws) = res_bind (highest_add s key weight) (\<lambda>s'. highest_add_all s' kws)"

section \<open>Lemmas\<close>


lemma new_collapsing_store_simps [simp]:
  "min_key (new_collapsing_store l c) = int64_max" "max_key (new_collapsing_store l c) = int64_min"
  "bins (new_collapsing_store l c) = []" "is_collapsed (new_collapsing_store l c) = False"
  "count (new_collapsing_store l c) = 0" "chunk_size (new_collapsing_store l c) = c"
  "bin_limit (new_collapsing_store l c) = l" "offset (new_collapsing_store l c) = 0"
  by (simp_all add: new_collapsing_store_def)

lemma collapsing_first_length:
  assumes "limit \<le> 0" "0 < chunk"
  shows "collapsing_get_new_length (new_collapsing_store limit chunk) key key = limit"
  using assms ceiling_quotient_ge [OF assms(2), of 1]
  by (simp add: collapsing_get_new_length_def Let_def)

lemma first_extend_negative_limit:
  assumes "limit < 0" "0 < chunk" "key \<le> int64_max" "int64_min \<le> key"
  shows "extend_range collapsing_get_new_length adjust (new_collapsing_store limit chunk) key key = Inl LengthError"
proof -
  have nm: "min key int64_max = key" "max key int64_min = key"
    using assms(3,4) by simp_all
  show ?thesis
    using collapsing_first_length [OF _ assms(2), of limit key] assms(1)
    by (simp add: extend_range_def nm is_empty_def store_length_def Let_def)
qed

lemma first_extend_zero_limit:
  assumes "0 < chunk" "key \<le> int64_max" "int64_min \<le> key"
    and adj: "adjust (new_collapsing_store 0 chunk\<lparr>bins := [], offset := key\<rparr>) key key = r"
  shows "extend_range collapsing_get_new_length adjust (new_collapsing_store 0 chunk) key key = r"
proof -
  have nm: "min key int64_max = key" "max key int64_min = key"
    using assms(2,3) by simp_all
  show ?thesis
    using adj collapsing_first_length [OF _ assms(1), of 0 key]
    by (simp add: extend_range_def nm is_empty_def store_length_def initialize_with_zeros_def Let_def)
qed

lemma collapsing_first_length_pos:
  assumes "0 < limit" "0 < chunk"
  shows "collapsing_get_new_length (new_collapsing_store limit chunk) key key = min chunk limit"
proof -
  have "\<lceil>1 / real_of_int chunk\<rceil> = 1"
    using assms(2) by (simp add: ceiling_eq_iff)
  then show ?thesis by (simp add: collapsing_get_new_length_def Let_def)
qed

lemma collapsing_first_extend:
  assumes lim: "0 < limit" "0 < chunk" and k: "int64_min \<le> key" "key \<le> int64_max"
    and adj: "adjust = lowest_adjust \<or> adjust = highest_adjust"
  shows "\<exists>s'. extend_range collapsing_get_new_length adjust (new_collapsing_store limit chunk) key key = Inr s'
    \<and> dense_wf s' \<and> bin_count s' = (\<lambda>k. 0) \<and> min_key s' = key \<and> max_key s' = key
    \<and> store_length s' = min chunk limit \<and> bin_limit s' = limit \<and> \<not> is_collapsed s' \<and> count s' = 0
    \<and> chunk_size s' = chunk"
proof -
  let ?L = "min chunk limit"
  let ?s1 = "(new_collapsing_store limit chunk)\<lparr>bins := initialize_with_zeros (nat ?L), offset := key\<rparr>"
  have nm: "min key int64_max = key" "max key int64_min = key"
    using k by (simp_all add: int64_min_def int64_max_def)
  have L1: "1 \<le> ?L" using lim by simp
  have ext: "extend_range collapsing_get_new_length adjust (new_collapsing_store limit chunk) key key =
             adjust ?s1 key key"
    using collapsing_first_length_pos [OF lim, of key] L1
    by (simp add: extend_range_def nm is_empty_def store_length_def Let_def)
  have len1: "store_length ?s1 = ?L"
    using L1 by (simp add: store_length_def)
  have a: "adjust ?s1 key key = res_bind (center_bins ?s1 key key)
             (\<lambda>s'. Inr (s'\<lparr>min_key := key, max_key := key\<rparr>))"
    using adj len1 L1 by (auto simp: lowest_adjust_def highest_adjust_def)
  obtain b o' where c: "center_bins ?s1 key key = Inr (?s1\<lparr>bins := b, offset := o'\<rparr>)"
      "length b = length (bins ?s1)" "o' \<le> key" "key < o' + store_length ?s1"
      "\<forall>k. bin_count (?s1\<lparr>bins := b, offset := o'\<rparr>) k =
             (if o' \<le> k \<and> k < o' + store_length ?s1 then bin_count ?s1 k else 0)"
    using center_bins_Inr [of key key ?s1] len1 L1 by auto
  let ?s' = "?s1\<lparr>bins := b, offset := o', min_key := key, max_key := key\<rparr>"
  have bc: "bin_count ?s' = (\<lambda>k. 0)"
    using c(5) by (simp add: fun_eq_iff)
  have sl: "store_length ?s' = ?L" using c(2) len1 by (simp add: store_length_def)
  have bz: "\<forall>i<length b. b ! i = 0"
  proof (intro allI impI)
    fix i assume "i < length b"
    then have "bin_count ?s' (o' + int i) = b ! i" by (simp add: bin_count_def store_length_def)
    then show "b ! i = 0" using bc by simp
  qed
  have sum0: "sum_list b = 0"
    using bz by (metis in_set_conv_nth sum_list_zeros)
  have wf: "dense_wf ?s'"
    using lim k c(2-4) len1 L1 bz sum0
    by (auto simp: dense_wf_def new_collapsing_store_def store_length_def bins_within_iff)
  show ?thesis
    using ext a c(1) bc sl wf by (simp add: new_collapsing_store_def)
qed

lemma lowest_first_add_Inr:
  assumes lim: "0 < limit" "0 < chunk" and k: "int64_min \<le> key" "key \<le> int64_max"
  shows "\<exists>s'. lowest_add (new_collapsing_store limit chunk) key w = Inr s' \<and> dense_wf s' \<and>
     bin_count s' = (\<lambda>k. if k = key then w else 0) \<and> count s' = w \<and> min_key s' = key \<and> max_key s' = key \<and>
     store_length s' = min chunk limit \<and> bin_limit s' = limit \<and> chunk_size s' = chunk \<and> \<not> is_collapsed s'"
proof -
  obtain s1 where s1: "lowest_extend_range (new_collapsing_store limit chunk) key key = Inr s1"
      "dense_wf s1" "bin_count s1 = (\<lambda>k. 0)" "min_key s1 = key" "max_key s1 = key"
      "store_length s1 = min chunk limit" "bin_limit s1 = limit" "\<not> is_collapsed s1" "count s1 = 0"
      "chunk_size s1 = chunk"
    using collapsing_first_extend [OF lim k, of lowest_adjust] by (auto simp: lowest_extend_range_def)
  have gi: "lowest_get_index (new_collapsing_store limit chunk) key = Inr (s1, key - offset s1)"
    using s1(1,8) k by (auto simp: lowest_get_index_def new_collapsing_store_def int64_min_def int64_max_def)
  obtain b where b: "bl_add (bins s1) (key - offset s1) w = Inr b"
      "dense_wf (s1\<lparr>bins := b, count := count s1 + w\<rparr>)"
      "bin_count (s1\<lparr>bins := b, count := count s1 + w\<rparr>) = (bin_count s1)(key := bin_count s1 key + w)"
    using wf_add_at [OF s1(2), of key w] s1(4,5) by auto
  have "length b = length (bins s1)"
    using b(1) by (auto simp: bl_add_def split: if_splits)
  then show ?thesis
    using gi b s1 lim by (auto simp: lowest_add_def store_add_def store_length_def fun_eq_iff)
qed

lemma highest_first_add_Inr:
  assumes lim: "0 < limit" "0 < chunk" and k: "int64_min \<le> key" "key \<le> int64_max"
  shows "\<exists>s'. highest_add (new_collapsing_store limit chunk) key w = Inr s' \<and> dense_wf s' \<and>
     bin_count s' = (\<lambda>k. if k = key then w else 0) \<and> count s' = w \<and> min_key s' = key \<and> max_key s' = key \<and>
     store_length s' = min chunk limit \<and> bin_limit s' = limit \<and> chunk_size s' = chunk \<and> \<not> is_collapsed s'"
proof -
  obtain s1 where s1: "highest_extend_range (new_collapsing_store limit chunk) key key = Inr s1"
      "dense_wf s1" "bin_count s1 = (\<lambda>k. 0)" "min_key s1 = key" "max_key s1 = key"
      "store_length s1 = min chunk limit" "bin_limit s1 = limit" "\<not> is_collapsed s1" "count s1 = 0"
      "chunk_size s1 = chunk"
    using collapsing_first_extend [OF lim k, of highest_adjust] by (auto simp: highest_extend_range_def)
  have gi: "highest_get_index (new_collapsing_store limit chunk) key = Inr (s1, key - offset s1)"
    using s1(1,8) k by (auto simp: highest_get_index_def new_collapsing_store_def int64_min_def int64_max_def)
  obtain b where b: "bl_add (bins s1) (key - offset s1) w = Inr b"
      "dense_wf (s1\<lparr>bins := b, count := count s1 + w\<rparr>)"
      "bin_count (s1\<lparr>bins := b, count := count s1 + w\<rparr>) = (bin_count s1)(key := bin_count s1 key + w)"
    using wf_add_at [OF s1(2), of key w] s1(4,5) by auto
  have "length b = length (bins s1)"
    using b(1) by (auto simp: bl_add_def split: if_splits)
  then show ?thesis
    using gi b s1 lim by (auto simp: highest_add_def store_add_def store_length_def fun_eq_iff)
qed

section \<open>Properties of the collapsing stores\<close>

text \<open>
  Merging two collapsing-lowest stores with the same bin limit is not
  equivalent to replaying the other store's adds: \<open>merge\<close> folds the receiver's own
  bins (\<open>bins_.collapsed_count\<close>) instead of the other store's into the first bin,
  so weight is lost and \<open>count_\<close> no longer equals the sum of the bins.
\<close>

theorem lowest_merge_loses_weight:
  "(case res_bind (lowest_add_all (new_collapsing_store 4 4) [(10, 1), (13, 1)])
          (\<lambda>s. res_bind (lowest_add_all (new_collapsing_store 4 4) [(5, 5), (6, 7)]) (\<lambda>t. lowest_merge s t))
    of Inr m \<Rightarrow> count m = 14 \<and> sum_list (bins m) = 3 | Inl e \<Rightarrow> False)
   \<and> (case lowest_add_all (new_collapsing_store 4 4) [(10, 1), (13, 1), (5, 5), (6, 7)]
      of Inr r \<Rightarrow> count r = 14 \<and> sum_list (bins r) = 14 | Inl e \<Rightarrow> False)"
  by code_simp

text \<open>
  The same holds for the collapsing-highest store: its \<open>merge\<close> folds the
  receiver's bins into the last bin and loses the other store's weight.
\<close>

theorem highest_merge_loses_weight:
  "(case res_bind (highest_add_all (new_collapsing_store 4 4) [(10, 1), (13, 1)])
          (\<lambda>s. res_bind (highest_add_all (new_collapsing_store 4 4) [(17, 5), (16, 7)]) (\<lambda>t. highest_merge s t))
    of Inr m \<Rightarrow> count m = 14 \<and> sum_list (bins m) = 2 | Inl e \<Rightarrow> False)
   \<and> (case highest_add_all (new_collapsing_store 4 4) [(10, 1), (13, 1), (17, 5), (16, 7)]
      of Inr r \<Rightarrow> count r = 14 \<and> sum_list (bins r) = 14 | Inl e \<Rightarrow> False)"
  by code_simp

text \<open>
  Merging a collapsing-lowest store with a larger bin limit into one with a
  smaller limit reaches \<open>collapsed_count(start, end)\<close> with \<open>end < start\<close>, an
  undefined \<open>std::accumulate\<close>, although the spec allows merging stores with
  different bin limits.
\<close>

theorem lowest_merge_wider_limit_undefined:
  "res_bind (lowest_add_all (new_collapsing_store 4 4) [(2, 1), (3, 1)])
     (\<lambda>s. res_bind (lowest_add_all (new_collapsing_store 100 4) [(-10, 1), (4, 1)]) (\<lambda>t. lowest_merge s t))
   = Inl OutOfRange"
  by code_simp

text \<open>
  For the collapsing-highest store the same merge throws
  \<open>std::invalid_argument\<close> from \<open>collapsed_count\<close>.
\<close>

theorem highest_merge_wider_limit_throws:
  "res_bind (highest_add_all (new_collapsing_store 4 4) [(2, 1), (3, 1)])
     (\<lambda>s. res_bind (highest_add_all (new_collapsing_store 100 4) [(-10, 1), (4, 1)]) (\<lambda>t. highest_merge s t))
   = Inl InvalidArgument"
  by code_simp

text \<open>
  C6. A collapsing-lowest store constructed with \<open>bin_limit <= 0\<close> (the store
  itself does not substitute the default) fails on its first \<open>add\<close>.  With a
  negative limit, \<open>get_new_length\<close> returns it, its conversion to \<open>size_t\<close> in
  \<open>initialize_with_zeros\<close> is huge, and the deque constructor throws
  \<open>std::length_error\<close>.  With limit 0 the window has no bins and
  \<open>bins_.first()\<close> is accessed on an empty deque.
\<close>

theorem lowest_add_nonpositive_limit:
  assumes "limit \<le> 0" "0 < chunk" "key \<le> int64_max" "int64_min \<le> key"
  shows "lowest_add (new_collapsing_store limit chunk) key weight =
           Inl (if limit < 0 then LengthError else OutOfRange)"
proof (cases "limit < 0")
  case True
  then have "lowest_extend_range (new_collapsing_store limit chunk) key key = Inl LengthError"
    unfolding lowest_extend_range_def by (rule first_extend_negative_limit [OF _ assms(2-4)])
  then show ?thesis
    using True by (simp add: lowest_add_def store_add_def lowest_get_index_def int64_min_def int64_max_def)
next
  case False
  then have l0: "limit = 0" using assms(1) by simp
  have "lowest_adjust (new_collapsing_store 0 chunk\<lparr>bins := [], offset := key\<rparr>) key key = Inl OutOfRange"
    using assms(4) by (simp add: lowest_adjust_def store_length_def bl_set_def initialize_with_zeros_def int64_min_def Let_def)
  then have "lowest_extend_range (new_collapsing_store 0 chunk) key key = Inl OutOfRange"
    unfolding lowest_extend_range_def by (rule first_extend_zero_limit [OF assms(2-4)])
  then show ?thesis
    using l0 by (simp add: lowest_add_def store_add_def lowest_get_index_def int64_min_def int64_max_def)
qed

theorem lowest_add_nonpositive_limit_witness:
  "lowest_add (new_collapsing_store 0 128) 3 1 = Inl OutOfRange \<and>
   lowest_add (new_collapsing_store (-5) 128) 3 1 = Inl LengthError"
  using lowest_add_nonpositive_limit [of 0 128 3 1] lowest_add_nonpositive_limit [of "-5" 128 3 1]
  by (simp add: int64_min_def int64_max_def)

text \<open>
  C7. The same holds for the collapsing-highest store: \<open>std::length_error\<close> for
  a negative limit, \<open>bins_.last()\<close> on an empty deque for limit 0.
\<close>

theorem highest_add_nonpositive_limit:
  assumes "limit \<le> 0" "0 < chunk" "key \<le> int64_max" "int64_min \<le> key"
  shows "highest_add (new_collapsing_store limit chunk) key weight =
           Inl (if limit < 0 then LengthError else OutOfRange)"
proof (cases "limit < 0")
  case True
  then have "highest_extend_range (new_collapsing_store limit chunk) key key = Inl LengthError"
    unfolding highest_extend_range_def by (rule first_extend_negative_limit [OF _ assms(2-4)])
  then show ?thesis
    using True by (simp add: highest_add_def store_add_def highest_get_index_def int64_min_def int64_max_def)
next
  case False
  then have l0: "limit = 0" using assms(1) by simp
  have "highest_adjust (new_collapsing_store 0 chunk\<lparr>bins := [], offset := key\<rparr>) key key = Inl OutOfRange"
    using assms(3) by (simp add: highest_adjust_def store_length_def bl_set_def initialize_with_zeros_def int64_max_def Let_def)
  then have "highest_extend_range (new_collapsing_store 0 chunk) key key = Inl OutOfRange"
    unfolding highest_extend_range_def by (rule first_extend_zero_limit [OF assms(2-4)])
  then show ?thesis
    using l0 by (simp add: highest_add_def store_add_def highest_get_index_def int64_min_def int64_max_def)
qed

theorem highest_add_nonpositive_limit_witness:
  "highest_add (new_collapsing_store 0 128) 3 1 = Inl OutOfRange \<and>
   highest_add (new_collapsing_store (-5) 128) 3 1 = Inl LengthError"
  using highest_add_nonpositive_limit [of 0 128 3 1] highest_add_nonpositive_limit [of "-5" 128 3 1]
  by (simp add: int64_min_def int64_max_def)

text \<open>
  C20. With a positive \<open>bin_limit\<close> (the contrast to C6), the first \<open>add\<close> on a new
  collapsing-lowest store with an \<open>Index\<close> key returns: the store is well formed,
  holds the weight at that key only, has \<open>min(chunk_size, bin_limit)\<close> bins, within
  its limit, and is not collapsed.
\<close>

theorem lowest_first_add_positive_limit:
  assumes lim: "0 < limit" "0 < chunk" and k: "int64_min \<le> key" "key \<le> int64_max"
  shows "\<exists>s'. lowest_add (new_collapsing_store limit chunk) key w = Inr s' \<and> dense_wf s' \<and>
     bin_count s' = (\<lambda>k. if k = key then w else 0) \<and> count s' = w \<and>
     store_length s' = min chunk limit \<and> store_length s' \<le> bin_limit s' \<and> \<not> is_collapsed s'"
  using lowest_first_add_Inr [OF lim k, of w] by auto

theorem lowest_first_add_positive_limit_witness:
  "0 < (20 :: int) \<and> 0 < kChunkSize \<and> int64_min \<le> (3 :: int) \<and> (3 :: int) \<le> int64_max \<and>
   (\<exists>s'. lowest_add (new_collapsing_store 20 kChunkSize) 3 1 = Inr s' \<and> dense_wf s' \<and>
     bin_count s' = (\<lambda>k. if k = 3 then 1 else 0) \<and> count s' = 1 \<and>
     store_length s' = min kChunkSize 20 \<and> store_length s' \<le> bin_limit s' \<and> \<not> is_collapsed s')"
  using lowest_first_add_positive_limit [of 20 kChunkSize 3 1]
  by (simp add: kChunkSize_def int64_min_def int64_max_def)

text \<open>
  C21. The same for the collapsing-highest store (the contrast to C7).
\<close>

theorem highest_first_add_positive_limit:
  assumes lim: "0 < limit" "0 < chunk" and k: "int64_min \<le> key" "key \<le> int64_max"
  shows "\<exists>s'. highest_add (new_collapsing_store limit chunk) key w = Inr s' \<and> dense_wf s' \<and>
     bin_count s' = (\<lambda>k. if k = key then w else 0) \<and> count s' = w \<and>
     store_length s' = min chunk limit \<and> store_length s' \<le> bin_limit s' \<and> \<not> is_collapsed s'"
  using highest_first_add_Inr [OF lim k, of w] by auto

theorem highest_first_add_positive_limit_witness:
  "0 < (20 :: int) \<and> 0 < kChunkSize \<and> int64_min \<le> (3 :: int) \<and> (3 :: int) \<le> int64_max \<and>
   (\<exists>s'. highest_add (new_collapsing_store 20 kChunkSize) 3 1 = Inr s' \<and> dense_wf s' \<and>
     bin_count s' = (\<lambda>k. if k = 3 then 1 else 0) \<and> count s' = 1 \<and>
     store_length s' = min kChunkSize 20 \<and> store_length s' \<le> bin_limit s' \<and> \<not> is_collapsed s')"
  using highest_first_add_positive_limit [of 20 kChunkSize 3 1]
  by (simp add: kChunkSize_def int64_min_def int64_max_def)

end
