(* ===== verification/KeyMapping.thy ===== *)
theory KeyMapping
  imports DDS_Prelude
begin

text \<open>
  \<open>KeyMapping\<close> and its subclasses \<open>LogarithmicMapping\<close>,
  \<open>LinearlyInterpolatedMapping\<close> and \<open>CubicallyInterpolatedMapping\<close> (ddsketch.h).
  The mapping's data members are a record; the subclass is the \<open>mapping_kind\<close>
  field, on which the two virtual methods \<open>log_gamma\<close> and \<open>pow_gamma\<close> dispatch.
  \<open>double\<close> arithmetic is modelled by exact real arithmetic: \<open>std::log2\<close> is
  \<open>log 2\<close>, \<open>std::exp2\<close> is \<open>2 powr\<close>, \<open>std::log1p x\<close> is \<open>ln (1 + x)\<close>,
  \<open>std::cbrt\<close> is \<open>root 3\<close>, \<open>std::frexp\<close> and \<open>std::ldexp\<close> are written out on
  reals. Rounding of the floating-point operations is not modelled.
\<close>

section \<open>State\<close>

datatype mapping_kind = Logarithmic | LinearlyInterpolated | CubicallyInterpolated

record key_mapping =
  mapping_kind :: mapping_kind
  relative_accuracy :: real_value
  mapping_offset :: real_value
  gamma :: real_value
  min_possible :: real_value
  max_possible :: real_value
  multiplier :: real_value

text \<open>\<open>std::numeric_limits<double>::min()\<close> and \<open>max()\<close>.\<close>

definition dbl_min :: real where
  "dbl_min = 1 / 2 ^ 1022"

definition dbl_max :: real where
  "dbl_max = (2 - 1 / 2 ^ 52) * 2 ^ 1023"

section \<open>Floating-point library functions\<close>

text \<open>
  \<open>std::frexp\<close>: for \<open>v \<noteq> 0\<close>, the mantissa in \<open>[0.5, 1)\<close> (in absolute value)
  and the exponent with \<open>v = m * 2^e\<close>; \<open>(0, 0)\<close> for zero.
\<close>

definition frexp :: "real \<Rightarrow> real \<times> int" where
  "frexp v = (if v = 0 then (0, 0)
              else (let e = \<lfloor>log 2 \<bar>v\<bar>\<rfloor> + 1 in (v / 2 powr real_of_int e, e)))"

definition ldexp :: "real \<Rightarrow> int \<Rightarrow> real" where
  "ldexp m e = m * 2 powr real_of_int e"

section \<open>KeyMapping\<close>

definition kDefaultRelativeAccuracy :: real where
  "kDefaultRelativeAccuracy = 0.01"

text \<open>The private \<open>adjust_accuracy\<close>, which no constructor calls.\<close>

definition adjust_accuracy :: "real_value \<Rightarrow> real_value" where
  "adjust_accuracy a = (if a \<le> 0 \<or> 1 \<le> a then kDefaultRelativeAccuracy else a)"

text \<open>
  The \<open>KeyMapping\<close> constructor: it throws for an accuracy outside \<open>(0, 1)\<close>, and
  sets \<open>multiplier_ = 1 / log1p(gamma_mantissa)\<close>, which each subclass constructor
  then rescales.
\<close>

definition key_mapping_init :: "mapping_kind \<Rightarrow> real_value \<Rightarrow> real_value \<Rightarrow> key_mapping res" where
  "key_mapping_init k relative_accuracy' offset' =
     (if relative_accuracy' \<le> 0 \<or> 1 \<le> relative_accuracy' then Inl IllegalArgument
      else
        (let gamma_mantissa = 2 * relative_accuracy' / (1 - relative_accuracy');
             gamma' = 1 + gamma_mantissa
         in Inr \<lparr>mapping_kind = k, relative_accuracy = relative_accuracy', mapping_offset = offset',
                 gamma = gamma', min_possible = dbl_min * gamma', max_possible = dbl_max / gamma',
                 multiplier = 1 / ln (1 + gamma_mantissa)\<rparr>))"

definition new_logarithmic_mapping :: "real_value \<Rightarrow> real_value \<Rightarrow> key_mapping res" where
  "new_logarithmic_mapping a off =
     res_bind (key_mapping_init Logarithmic a off)
       (\<lambda>m. Inr (m\<lparr>multiplier := multiplier m * ln 2\<rparr>))"

definition new_linearly_interpolated_mapping :: "real_value \<Rightarrow> real_value \<Rightarrow> key_mapping res" where
  "new_linearly_interpolated_mapping a off = key_mapping_init LinearlyInterpolated a off"

definition cubic_A :: real where "cubic_A = 6 / 35"
definition cubic_B :: real where "cubic_B = - 3 / 5"
definition cubic_C :: real where "cubic_C = 10 / 7"

definition new_cubically_interpolated_mapping :: "real_value \<Rightarrow> real_value \<Rightarrow> key_mapping res" where
  "new_cubically_interpolated_mapping a off =
     res_bind (key_mapping_init CubicallyInterpolated a off)
       (\<lambda>m. Inr (m\<lparr>multiplier := multiplier m / cubic_C\<rparr>))"

section \<open>The approximations of the interpolated mappings\<close>

definition log2_approx :: "real \<Rightarrow> real" where
  "log2_approx v =
     (let (mantissa, exponent) = frexp v;
          significand = 2 * mantissa - 1
      in significand + real_of_int (exponent - 1))"

definition exp2_approx :: "real \<Rightarrow> real" where
  "exp2_approx v =
     (let exponent = \<lfloor>v\<rfloor> + 1;
          mantissa = (v - real_of_int exponent + 2) / 2
      in ldexp mantissa exponent)"

definition cubic_log2_approx :: "real \<Rightarrow> real" where
  "cubic_log2_approx v =
     (let (mantissa, exponent) = frexp v;
          significand = 2 * mantissa - 1
      in ((cubic_A * significand + cubic_B) * significand + cubic_C) * significand
         + real_of_int (exponent - 1))"

definition cubic_exp2_approx :: "real \<Rightarrow> real" where
  "cubic_exp2_approx v =
     (let exponent = \<lfloor>v\<rfloor>;
          delta_0 = cubic_B * cubic_B - 3 * cubic_A * cubic_C;
          delta_1 = 2 * cubic_B * cubic_B * cubic_B - 9 * cubic_A * cubic_B * cubic_C
                    - 27 * cubic_A * cubic_A * (v - real_of_int exponent);
          cardano = root 3 ((delta_1 - sqrt (delta_1 * delta_1 - 4 * delta_0 * delta_0 * delta_0)) / 2);
          significand_plus_one = - (cubic_B + cardano + delta_0 / cardano) / (3 * cubic_A) + 1;
          mantissa = significand_plus_one / 2
      in ldexp mantissa (exponent + 1))"

section \<open>Virtual dispatch and the public operations\<close>

definition log_gamma :: "key_mapping \<Rightarrow> real \<Rightarrow> real" where
  "log_gamma m v =
     (case mapping_kind m of
        Logarithmic \<Rightarrow> log 2 v * multiplier m
      | LinearlyInterpolated \<Rightarrow> log2_approx v * multiplier m
      | CubicallyInterpolated \<Rightarrow> cubic_log2_approx v * multiplier m)"

definition pow_gamma :: "key_mapping \<Rightarrow> real \<Rightarrow> real" where
  "pow_gamma m v =
     (case mapping_kind m of
        Logarithmic \<Rightarrow> 2 powr (v / multiplier m)
      | LinearlyInterpolated \<Rightarrow> exp2_approx (v / multiplier m)
      | CubicallyInterpolated \<Rightarrow> cubic_exp2_approx (v / multiplier m))"

definition mapping_key :: "key_mapping \<Rightarrow> real_value \<Rightarrow> index" where
  "mapping_key m v = trunc_cast (real_of_int \<lceil>log_gamma m v\<rceil> + mapping_offset m)"

definition mapping_value :: "key_mapping \<Rightarrow> index \<Rightarrow> real_value" where
  "mapping_value m k = pow_gamma m (real_of_int k - mapping_offset m) * (2 / (1 + gamma m))"

section \<open>Helper lemmas\<close>

lemma key_mapping_init_Inr:
  "0 < a \<Longrightarrow> a < 1 \<Longrightarrow> key_mapping_init k a off =
     Inr \<lparr>mapping_kind = k, relative_accuracy = a, mapping_offset = off,
          gamma = 1 + 2 * a / (1 - a), min_possible = dbl_min * (1 + 2 * a / (1 - a)),
          max_possible = dbl_max / (1 + 2 * a / (1 - a)), multiplier = 1 / ln (1 + 2 * a / (1 - a))\<rparr>"
  by (simp add: key_mapping_init_def Let_def)

lemma gamma_accuracy:
  fixes a :: real
  assumes "0 < a" "a < 1"
  shows "1 < 1 + 2 * a / (1 - a)" "((1 + 2 * a / (1 - a)) - 1) / ((1 + 2 * a / (1 - a)) + 1) = a"
  using assms by (simp_all add: field_simps)

lemma new_logarithmic_mapping_Inr:
  assumes "new_logarithmic_mapping a off = Inr m"
  shows "0 < a" "a < 1" "mapping_kind m = Logarithmic" "mapping_offset m = off"
    "gamma m = 1 + 2 * a / (1 - a)" "multiplier m = ln 2 / ln (gamma m)" "relative_accuracy m = a"
proof -
  show a: "0 < a" "a < 1"
    using assms by (auto simp: new_logarithmic_mapping_def key_mapping_init_def Let_def split: if_splits)
  then show "mapping_kind m = Logarithmic" "mapping_offset m = off"
    "gamma m = 1 + 2 * a / (1 - a)" "multiplier m = ln 2 / ln (gamma m)" "relative_accuracy m = a"
    using assms by (auto simp: new_logarithmic_mapping_def key_mapping_init_Inr)
qed

lemma log_mapping_log_gamma:
  assumes "mapping_kind m = Logarithmic" "multiplier m = ln 2 / ln (gamma m)"
  shows "log_gamma m v = ln v / ln (gamma m)"
  using assms by (simp add: log_gamma_def log_def)

lemma log_mapping_pow_gamma:
  assumes "mapping_kind m = Logarithmic" "multiplier m = ln 2 / ln (gamma m)" "1 < gamma m"
  shows "pow_gamma m x = gamma m powr x"
proof -
  have "2 powr (x / (ln 2 / ln (gamma m))) = exp (x * ln (gamma m))"
    by (simp add: powr_def)
  also have "\<dots> = gamma m powr x"
    using assms(3) by (simp add: powr_def mult.commute)
  finally show ?thesis using assms by (simp add: pow_gamma_def)
qed

lemma frexp_pos:
  assumes "0 < v"
  shows "frexp v = (v / 2 powr real_of_int (\<lfloor>log 2 v\<rfloor> + 1), \<lfloor>log 2 v\<rfloor> + 1)"
  using assms by (simp add: frexp_def)

lemma frexp_mantissa_bounds:
  assumes "0 < v"
  shows "1 / 2 \<le> v / 2 powr real_of_int (\<lfloor>log 2 v\<rfloor> + 1)"
    "v / 2 powr real_of_int (\<lfloor>log 2 v\<rfloor> + 1) < 1"
proof -
  let ?e = "\<lfloor>log 2 v\<rfloor>"
  have lo: "2 powr real_of_int ?e \<le> v"
    using assms by (subst le_log_iff [symmetric]) auto
  have hi: "v < 2 powr (real_of_int ?e + 1)"
    using assms by (subst log_less_iff [symmetric]) auto
  have p: "2 powr real_of_int (?e + 1) = 2 * 2 powr real_of_int ?e"
    by (simp add: powr_add)
  have q: "0 < 2 powr real_of_int ?e" by simp
  show "1 / 2 \<le> v / 2 powr real_of_int (?e + 1)"
    unfolding p using lo q by (simp add: field_simps)
  show "v / 2 powr real_of_int (?e + 1) < 1"
    unfolding p using hi q by (simp add: powr_add field_simps)
qed

lemma log_gamma_one [simp]: "log_gamma m 1 = 0"
  by (simp add: log_gamma_def log2_approx_def cubic_log2_approx_def frexp_def split: mapping_kind.split)

lemma log_mapping_key:
  assumes m: "new_logarithmic_mapping a (real_of_int off) = Inr m"
  shows "mapping_key m v = \<lceil>ln v / ln (gamma m)\<rceil> + off"
  using new_logarithmic_mapping_Inr [OF m]
  by (simp add: mapping_key_def log_mapping_log_gamma flip: of_int_add)

text \<open>
  The bin of a value: \<open>key(v) - offset\<close> is \<open>c = \<lceil>log\<^sub>\<gamma> v\<rceil>\<close>, so
  \<open>\<gamma>^(c-1) < v \<le> \<gamma>^c\<close>, and \<open>value(key(v))\<close> is \<open>\<gamma>^c * 2 / (1 + \<gamma>)\<close>.
\<close>

lemma log_mapping_bracket:
  assumes m: "new_logarithmic_mapping a (real_of_int off) = Inr m" and v: "0 < v"
  shows "mapping_value m (mapping_key m v) =
           gamma m powr real_of_int \<lceil>ln v / ln (gamma m)\<rceil> * (2 / (1 + gamma m))"
    "v \<le> gamma m powr real_of_int \<lceil>ln v / ln (gamma m)\<rceil>"
    "gamma m powr real_of_int \<lceil>ln v / ln (gamma m)\<rceil> < gamma m * v"
    "1 < gamma m" "(gamma m - 1) / (gamma m + 1) = a"
proof -
  note mm = new_logarithmic_mapping_Inr [OF m]
  let ?g = "gamma m"
  show g1: "1 < ?g" and "(?g - 1) / (?g + 1) = a"
    using gamma_accuracy [OF mm(1,2)] mm(5) by simp_all
  let ?L = "ln v / ln ?g"
  let ?c = "\<lceil>?L\<rceil>"
  show "mapping_value m (mapping_key m v) = ?g powr real_of_int ?c * (2 / (1 + ?g))"
    using mm(3,4,6) g1 by (simp add: mapping_value_def log_mapping_key [OF m] log_mapping_pow_gamma)
  have gL: "?g powr ?L = v"
    using g1 v by (simp add: powr_def)
  have "?g powr ?L \<le> ?g powr real_of_int ?c"
    using g1 by (intro powr_mono) auto
  then show "v \<le> ?g powr real_of_int ?c" using gL by simp
  have "?g powr real_of_int ?c < ?g powr (?L + 1)"
    using g1 by (intro powr_less_mono) linarith+
  then show "?g powr real_of_int ?c < ?g * v" using gL g1 by (simp add: powr_add mult.commute)
qed

lemma accuracy_of_bracket:
  fixes g p v a :: real
  assumes g1: "1 < g" and ga: "(g - 1) / (g + 1) = a" and lo: "v \<le> p" and hi: "p < g * v"
  shows "\<bar>p * (2 / (1 + g)) - v\<bar> \<le> a * v"
proof -
  have up: "p * (2 / (1 + g)) - v \<le> a * v"
  proof -
    have "p * (2 / (1 + g)) \<le> g * v * (2 / (1 + g))"
      using hi g1 by (intro mult_right_mono) auto
    moreover have "g * v * (2 / (1 + g)) - v = v * ((g - 1) / (g + 1))"
      using g1 by (simp add: field_simps)
    ultimately show ?thesis using ga by (simp add: mult.commute)
  qed
  have down: "v - p * (2 / (1 + g)) \<le> a * v"
  proof -
    have "v * (2 / (1 + g)) \<le> p * (2 / (1 + g))"
      using lo g1 by (intro mult_right_mono) auto
    moreover have "v - v * (2 / (1 + g)) = v * ((g - 1) / (g + 1))"
      using g1 by (simp add: field_simps)
    ultimately show ?thesis using ga by (simp add: mult.commute)
  qed
  show ?thesis using up down by linarith
qed

lemma log_mapping_key_mono:
  assumes m: "new_logarithmic_mapping a (real_of_int off) = Inr m" and "0 < v" "v \<le> w"
  shows "mapping_key m v \<le> mapping_key m w"
proof -
  have "1 < gamma m" using log_mapping_bracket [OF m \<open>0 < v\<close>] by simp
  then have "ln v / ln (gamma m) \<le> ln w / ln (gamma m)"
    using assms(2,3) by (intro divide_right_mono) auto
  then show ?thesis by (simp add: log_mapping_key [OF m] ceiling_mono)
qed

lemma log_mapping_min_possible_pos:
  assumes "new_logarithmic_mapping a off = Inr m"
  shows "0 < min_possible m"
proof -
  have "0 < a" "a < 1" "min_possible m = dbl_min * (1 + 2 * a / (1 - a))"
    using assms by (auto simp: new_logarithmic_mapping_def key_mapping_init_def Let_def split: if_splits)
  moreover have "0 < dbl_min" by (simp add: dbl_min_def)
  moreover have "0 < 1 + 2 * a / (1 - a)"
    using \<open>0 < a\<close> \<open>a < 1\<close> by (intro add_pos_nonneg divide_nonneg_pos) simp_all
  ultimately show ?thesis by simp
qed

section \<open>Properties of the key mappings\<close>

text \<open>
  C8. For a logarithmic mapping built with an accuracy \<open>a\<close> and an integral offset,
  every positive value is mapped to a key whose representative value is within
  relative error \<open>a\<close> of it: \<open>|value(key(v)) - v| \<le> a * v\<close>.
\<close>

theorem log_mapping_relative_accuracy:
  assumes m: "new_logarithmic_mapping a (real_of_int off) = Inr m" and v: "0 < v"
  shows "\<bar>mapping_value m (mapping_key m v) - v\<bar> \<le> a * v"
proof -
  note b = log_mapping_bracket [OF m v]
  show ?thesis unfolding b(1) by (rule accuracy_of_bracket [OF b(4,5,2,3)])
qed

theorem log_mapping_relative_accuracy_witness:
  "new_logarithmic_mapping (1/2) (real_of_int 0) =
     Inr \<lparr>mapping_kind = Logarithmic, relative_accuracy = 1/2, mapping_offset = 0, gamma = 3,
          min_possible = dbl_min * 3, max_possible = dbl_max / 3, multiplier = 1 / ln 3 * ln 2\<rparr> \<and>
   (0 :: real) < 5 \<and>
   \<bar>mapping_value \<lparr>mapping_kind = Logarithmic, relative_accuracy = 1/2, mapping_offset = 0, gamma = 3,
          min_possible = dbl_min * 3, max_possible = dbl_max / 3, multiplier = 1 / ln 3 * ln 2\<rparr>
      (mapping_key \<lparr>mapping_kind = Logarithmic, relative_accuracy = 1/2, mapping_offset = 0, gamma = 3,
          min_possible = dbl_min * 3, max_possible = dbl_max / 3, multiplier = 1 / ln 3 * ln 2\<rparr> 5) - 5\<bar>
     \<le> 1/2 * 5"
proof -
  have m: "new_logarithmic_mapping (1/2) (real_of_int 0) =
     Inr \<lparr>mapping_kind = Logarithmic, relative_accuracy = 1/2, mapping_offset = 0, gamma = 3,
          min_possible = dbl_min * 3, max_possible = dbl_max / 3, multiplier = 1 / ln 3 * ln 2\<rparr>"
    by (simp add: new_logarithmic_mapping_def key_mapping_init_def)
  show ?thesis using m log_mapping_relative_accuracy [OF m, of 5] by simp
qed

text \<open>
  C9. For every mapping (all three kinds), \<open>key(1)\<close> is the offset cast to an integer
  with \<open>static_cast\<close>, i.e. truncated toward zero: \<open>log_gamma(1) = 0\<close> for the
  exact logarithm and for both interpolations.
\<close>

theorem mapping_key_one: "mapping_key m 1 = trunc_cast (mapping_offset m)"
  by (simp add: mapping_key_def log_gamma_one)

text \<open>
  The cast truncates rather than floors: for the test's offset \<open>-12.23\<close> and
  accuracy \<open>0.01\<close>, \<open>key(1)\<close> is \<open>-12\<close>, not \<open>\<lfloor>-12.23\<rfloor> = -13\<close>.
\<close>

theorem key_one_negative_offset_truncates:
  "\<exists>m. new_logarithmic_mapping (1/100) (-1223/100) = Inr m \<and>
       mapping_key m 1 = -12 \<and> mapping_key m 1 \<noteq> \<lfloor>-1223/100 :: real\<rfloor>"
proof -
  obtain m where m: "new_logarithmic_mapping (1/100) (-1223/100) = Inr m"
    by (simp add: new_logarithmic_mapping_def key_mapping_init_def Let_def)
  have "mapping_offset m = -1223/100"
    using new_logarithmic_mapping_Inr [OF m] by simp
  then have "mapping_key m 1 = -12"
    by (simp add: mapping_key_def trunc_cast_def)
  then show ?thesis using m by simp
qed

text \<open>
  With a non-integral offset the accuracy guarantee fails: for \<open>a = 1/2\<close> and
  offset \<open>1/2\<close>, \<open>value(key(1))\<close> is \<open>3 powr (-1/2) / 2\<close>, farther than \<open>a\<close> from 1.
\<close>

theorem fractional_offset_breaks_accuracy:
  "\<exists>m. new_logarithmic_mapping (1/2) (1/2) = Inr m \<and>
       \<bar>mapping_value m (mapping_key m 1) - 1\<bar> > 1/2 * 1"
proof -
  obtain m where m: "new_logarithmic_mapping (1/2) (1/2) = Inr m"
    by (simp add: new_logarithmic_mapping_def key_mapping_init_def)
  note mm = new_logarithmic_mapping_Inr [OF m]
  have g: "gamma m = 3" using mm(5) by simp
  have k: "mapping_key m 1 = 0"
    by (simp add: mapping_key_def trunc_cast_def mm(4))
  have "mapping_value m 0 = 3 powr (- 1 / 2) * (1 / 2)"
    using mm(3,6) g by (simp add: mapping_value_def log_mapping_pow_gamma mm(4))
  also have "\<dots> < 1 / 2"
    using powr_less_mono [of "- (1 / 2)" 0 "3 :: real"] by simp
  finally show ?thesis using m k by auto
qed

text \<open>
  C10. \<open>exp2_approx\<close> is the inverse of \<open>log2_approx\<close> on positive values, as its
  comment says, so the linearly interpolated mapping's \<open>pow_gamma\<close> undoes its
  \<open>log_gamma\<close>.
\<close>

theorem linear_roundtrip:
  assumes "0 < v"
  shows "exp2_approx (log2_approx v) = v"
proof -
  let ?e = "\<lfloor>log 2 v\<rfloor> + 1"
  let ?m = "v / 2 powr real_of_int ?e"
  note b = frexp_mantissa_bounds [OF assms]
  have l: "log2_approx v = (2 * ?m - 1) + real_of_int (?e - 1)"
    using assms by (simp add: log2_approx_def frexp_pos)
  have f: "\<lfloor>log2_approx v\<rfloor> = ?e - 1"
  proof (rule floor_unique)
    show "real_of_int (?e - 1) \<le> log2_approx v" unfolding l using b(1) by linarith
    show "log2_approx v < real_of_int (?e - 1) + 1" unfolding l using b(2) by linarith
  qed
  show ?thesis
    using f by (simp add: exp2_approx_def ldexp_def l Let_def)
qed

theorem linear_roundtrip_witness: "(0 :: real) < 3 \<and> exp2_approx (log2_approx 3) = 3"
  using linear_roundtrip [of 3] by simp

text \<open>
  C11. Each of the three constructors throws \<open>IllegalArgumentException\<close> exactly when
  the relative accuracy is outside \<open>(0, 1)\<close>.
\<close>

theorem constructors_reject_accuracy:
  "(new_logarithmic_mapping a off = Inl e \<longleftrightarrow> (a \<le> 0 \<or> 1 \<le> a) \<and> e = IllegalArgument) \<and>
   (new_linearly_interpolated_mapping a off = Inl e \<longleftrightarrow> (a \<le> 0 \<or> 1 \<le> a) \<and> e = IllegalArgument) \<and>
   (new_cubically_interpolated_mapping a off = Inl e \<longleftrightarrow> (a \<le> 0 \<or> 1 \<le> a) \<and> e = IllegalArgument)"
  by (auto simp: new_logarithmic_mapping_def new_linearly_interpolated_mapping_def
      new_cubically_interpolated_mapping_def key_mapping_init_def Let_def)

end
