(* ===== verification/Sketch.thy ===== *)
theory Sketch
  imports CollapsingStore KeyMapping
begin

text \<open>
  \<open>BaseDDSketch<Store, Mapping>\<close> and its three instantiations \<open>DDSketch\<close>,
  \<open>LogCollapsingLowestDenseDDSketch\<close> and \<open>LogCollapsingHighestDenseDDSketch\<close>
  (ddsketch.h).  The sketch is a record over the store type \<open>'st\<close>; the store
  methods the sketch calls (the \<open>BaseStore\<close> interface) are a record of
  operations, one instance per store class.  The interface contract the sketch
  relies on is stated as predicates over those operations, and the dense store
  discharges them.  A \<open>NaN\<close> result of \<open>get_quantile_value\<close> and \<open>avg\<close> is \<open>None\<close>.
\<close>

section \<open>The store interface\<close>

record 'st store_ops =
  op_add :: "'st \<Rightarrow> index \<Rightarrow> real_value \<Rightarrow> 'st res"
  op_merge :: "'st \<Rightarrow> 'st \<Rightarrow> 'st res"
  op_copy :: "'st \<Rightarrow> 'st \<Rightarrow> 'st"
  op_count :: "'st \<Rightarrow> real_value"
  op_key_at_rank :: "'st \<Rightarrow> real \<Rightarrow> bool \<Rightarrow> index"

definition dense_ops :: "dense_store store_ops" where
  "dense_ops = \<lparr>op_add = dense_add, op_merge = dense_merge, op_copy = dense_copy,
                op_count = count, op_key_at_rank = key_at_rank\<rparr>"

definition lowest_ops :: "collapsing_store store_ops" where
  "lowest_ops = \<lparr>op_add = lowest_add, op_merge = lowest_merge, op_copy = collapsing_copy,
                 op_count = count, op_key_at_rank = key_at_rank\<rparr>"

definition highest_ops :: "collapsing_store store_ops" where
  "highest_ops = \<lparr>op_add = highest_add, op_merge = highest_merge, op_copy = collapsing_copy,
                  op_count = count, op_key_at_rank = key_at_rank\<rparr>"

section \<open>State\<close>

record 'st ddsketch =
  sketch_mapping :: key_mapping
  store :: 'st
  negative_store :: 'st
  zero_count :: real_value
  sketch_count :: real_value
  sketch_min :: real_value
  sketch_max :: real_value
  sketch_sum :: real_value

definition new_base_ddsketch :: "key_mapping \<Rightarrow> 'st \<Rightarrow> 'st \<Rightarrow> 'st ddsketch" where
  "new_base_ddsketch m st nst =
     \<lparr>sketch_mapping = m, store = st, negative_store = nst, zero_count = 0, sketch_count = 0,
      sketch_min = dbl_max, sketch_max = dbl_min, sketch_sum = 0\<rparr>"

section \<open>Operations\<close>

text \<open>\<open>avg\<close>: \<open>sum_ / count_\<close>, which is not a number for an empty sketch.\<close>

definition avg :: "'st ddsketch \<Rightarrow> real_value option" where
  "avg s = (if sketch_count s = 0 then None else Some (sketch_sum s / sketch_count s))"

text \<open>The summary statistics that \<open>add\<close> updates after routing the value.\<close>

definition add_stats :: "'st ddsketch \<Rightarrow> real_value \<Rightarrow> real_value \<Rightarrow> 'st ddsketch" where
  "add_stats s val weight =
     (let s1 = s\<lparr>sketch_count := sketch_count s + weight, sketch_sum := sketch_sum s + val * weight\<rparr>;
          s2 = (if val < sketch_min s1 then s1\<lparr>sketch_min := val\<rparr> else s1)
      in if sketch_max s2 < val then s2\<lparr>sketch_max := val\<rparr> else s2)"

definition sketch_add :: "'st store_ops \<Rightarrow> 'st ddsketch \<Rightarrow> real_value \<Rightarrow> real_value \<Rightarrow> 'st ddsketch res" where
  "sketch_add ops s val weight =
     (if weight \<le> 0 then Inl IllegalArgument
      else if min_possible (sketch_mapping s) < val then
        res_bind (op_add ops (store s) (mapping_key (sketch_mapping s) val) weight)
          (\<lambda>st. Inr (add_stats (s\<lparr>store := st\<rparr>) val weight))
      else if val < - min_possible (sketch_mapping s) then
        res_bind (op_add ops (negative_store s) (mapping_key (sketch_mapping s) (- val)) weight)
          (\<lambda>st. Inr (add_stats (s\<lparr>negative_store := st\<rparr>) val weight))
      else Inr (add_stats (s\<lparr>zero_count := zero_count s + weight\<rparr>) val weight))"

definition get_quantile_value :: "'st store_ops \<Rightarrow> 'st ddsketch \<Rightarrow> real \<Rightarrow> real_value option" where
  "get_quantile_value ops s quantile =
     (if quantile < 0 \<or> 1 < quantile \<or> sketch_count s = 0 then None
      else
        (let rank = quantile * (sketch_count s - 1);
             neg_count = op_count ops (negative_store s)
         in if rank < neg_count then
              (let reversed_rank = neg_count - rank - 1;
                   key = op_key_at_rank ops (negative_store s) reversed_rank False
               in Some (- mapping_value (sketch_mapping s) key))
            else if rank < zero_count s + neg_count then Some 0
            else
              (let key = op_key_at_rank ops (store s) (rank - zero_count s - neg_count) True
               in Some (mapping_value (sketch_mapping s) key))))"

definition mergeable :: "'st ddsketch \<Rightarrow> 'st ddsketch \<Rightarrow> bool" where
  "mergeable s t \<longleftrightarrow> gamma (sketch_mapping s) = gamma (sketch_mapping t)"

definition sketch_copy :: "'st store_ops \<Rightarrow> 'st ddsketch \<Rightarrow> 'st ddsketch \<Rightarrow> 'st ddsketch" where
  "sketch_copy ops s t =
     s\<lparr>store := op_copy ops (store s) (store t),
       negative_store := op_copy ops (negative_store s) (negative_store t),
       zero_count := zero_count t, sketch_min := sketch_min t, sketch_max := sketch_max t,
       sketch_count := sketch_count t, sketch_sum := sketch_sum t\<rparr>"

definition sketch_merge :: "'st store_ops \<Rightarrow> 'st ddsketch \<Rightarrow> 'st ddsketch \<Rightarrow> 'st ddsketch res" where
  "sketch_merge ops s t =
     (if \<not> mergeable s t then Inl UnequalSketchParameters
      else if sketch_count t = 0 then Inr s
      else if sketch_count s = 0 then Inr (sketch_copy ops s t)
      else
        res_bind (op_merge ops (store s) (store t))
          (\<lambda>st. res_bind (op_merge ops (negative_store s) (negative_store t))
            (\<lambda>nst.
               (let s1 = s\<lparr>store := st, negative_store := nst,
                           zero_count := zero_count s + zero_count t,
                           sketch_count := sketch_count s + sketch_count t,
                           sketch_sum := sketch_sum s + sketch_sum t\<rparr>;
                    s2 = (if sketch_min t < sketch_min s1 then s1\<lparr>sketch_min := sketch_min t\<rparr> else s1)
                in Inr (if sketch_max s2 < sketch_max t then s2\<lparr>sketch_max := sketch_max t\<rparr> else s2)))))"

section \<open>Constructors of the three sketches\<close>

definition kDefaultBinLimit :: index where
  "kDefaultBinLimit = 2048"

definition adjust_bin_limit :: "index \<Rightarrow> index" where
  "adjust_bin_limit bin_limit' = (if bin_limit' \<le> 0 then kDefaultBinLimit else bin_limit')"

definition new_ddsketch :: "real_value \<Rightarrow> dense_store ddsketch res" where
  "new_ddsketch a =
     res_bind (new_logarithmic_mapping a 0)
       (\<lambda>m. Inr (new_base_ddsketch m (new_dense_store kChunkSize) (new_dense_store kChunkSize)))"

definition new_log_collapsing_lowest_ddsketch :: "real_value \<Rightarrow> index \<Rightarrow> collapsing_store ddsketch res" where
  "new_log_collapsing_lowest_ddsketch a limit =
     res_bind (new_logarithmic_mapping a 0)
       (\<lambda>m. Inr (new_base_ddsketch m (new_collapsing_store (adjust_bin_limit limit) kChunkSize)
                                     (new_collapsing_store (adjust_bin_limit limit) kChunkSize)))"

definition new_log_collapsing_highest_ddsketch :: "real_value \<Rightarrow> index \<Rightarrow> collapsing_store ddsketch res" where
  "new_log_collapsing_highest_ddsketch a limit =
     res_bind (new_logarithmic_mapping a 0)
       (\<lambda>m. Inr (new_base_ddsketch m (new_collapsing_store (adjust_bin_limit limit) kChunkSize)
                                     (new_collapsing_store (adjust_bin_limit limit) kChunkSize)))"

text \<open>A stream of \<open>add(value, weight)\<close> calls, as the tests and the merge contract use them.\<close>

fun sketch_add_all :: "'st store_ops \<Rightarrow> 'st ddsketch \<Rightarrow> (real_value \<times> real_value) list \<Rightarrow> 'st ddsketch res" where
  "sketch_add_all ops s [] = Inr s"
| "sketch_add_all ops s ((v, w) # vws) = res_bind (sketch_add ops s v w) (\<lambda>s'. sketch_add_all ops s' vws)"

section \<open>The contract of the store interface\<close>

text \<open>
  What \<open>BaseDDSketch\<close> needs of its stores, over an invariant \<open>sinv\<close> of the store
  type: \<open>add\<close> with an \<open>Index\<close> key and a positive weight returns and adds the weight
  to \<open>count()\<close>; \<open>merge\<close> returns and adds the counts; \<open>copy\<close> takes the other
  store's count.  The sketch's own invariant ties its \<open>count_\<close> to its stores.
\<close>

definition add_contract :: "'st store_ops \<Rightarrow> ('st \<Rightarrow> bool) \<Rightarrow> bool" where
  "add_contract ops sinv \<longleftrightarrow>
     (\<forall>st k w. sinv st \<longrightarrow> int64_min \<le> k \<longrightarrow> k \<le> int64_max \<longrightarrow> 0 < w \<longrightarrow>
        (\<exists>st'. op_add ops st k w = Inr st' \<and> sinv st' \<and> op_count ops st' = op_count ops st + w))"

definition merge_contract :: "'st store_ops \<Rightarrow> ('st \<Rightarrow> bool) \<Rightarrow> bool" where
  "merge_contract ops sinv \<longleftrightarrow>
     (\<forall>st st2. sinv st \<longrightarrow> sinv st2 \<longrightarrow>
        (\<exists>st'. op_merge ops st st2 = Inr st' \<and> sinv st' \<and> op_count ops st' = op_count ops st + op_count ops st2))"

definition copy_contract :: "'st store_ops \<Rightarrow> ('st \<Rightarrow> bool) \<Rightarrow> bool" where
  "copy_contract ops sinv \<longleftrightarrow>
     (\<forall>st st2. sinv st \<longrightarrow> sinv st2 \<longrightarrow> sinv (op_copy ops st st2) \<and> op_count ops (op_copy ops st st2) = op_count ops st2)"

definition sketch_wf :: "'st store_ops \<Rightarrow> ('st \<Rightarrow> bool) \<Rightarrow> 'st ddsketch \<Rightarrow> bool" where
  "sketch_wf ops sinv s \<longleftrightarrow> sinv (store s) \<and> sinv (negative_store s) \<and> 0 \<le> zero_count s \<and>
     sketch_count s = zero_count s + op_count ops (store s) + op_count ops (negative_store s)"

definition dense_inv :: "dense_store \<Rightarrow> bool" where
  "dense_inv st \<longleftrightarrow> dense_wf st \<and> nonneg_bins st"

section \<open>Lemmas on the operations\<close>

lemma add_stats_simps [simp]:
  "sketch_mapping (add_stats s v w) = sketch_mapping s" "store (add_stats s v w) = store s"
  "negative_store (add_stats s v w) = negative_store s" "zero_count (add_stats s v w) = zero_count s"
  "sketch_count (add_stats s v w) = sketch_count s + w" "sketch_sum (add_stats s v w) = sketch_sum s + v * w"
  "sketch_min (add_stats s v w) = (if v < sketch_min s then v else sketch_min s)"
  "sketch_max (add_stats s v w) = (if sketch_max s < v then v else sketch_max s)"
  by (simp_all add: add_stats_def Let_def)

lemma sum_list_bins_abs_merge:
  fixes u s t :: dense_store
  assumes "bin_count u = abs_merge (bin_count s) (bin_count t)"
  shows "sum_list (bins u) = sum_list (bins s) + sum_list (bins t)"
proof -
  let ?W = "\<lambda>x :: dense_store. {offset x..<offset x + store_length x}"
  let ?K = "?W u \<union> ?W s \<union> ?W t"
  have "sum_list (bins u) = sum (bin_count u) ?K"
    by (rule sum_list_bins_superset) auto
  also have "\<dots> = sum (bin_count s) ?K + sum (bin_count t) ?K"
    by (simp add: assms abs_merge_def sum.distrib)
  also have "sum (bin_count s) ?K = sum_list (bins s)"
    by (rule sum_list_bins_superset [symmetric]) auto
  also have "sum (bin_count t) ?K = sum_list (bins t)"
    by (rule sum_list_bins_superset [symmetric]) auto
  finally show ?thesis .
qed

lemma dense_add_contract: "add_contract dense_ops dense_inv"
  unfolding add_contract_def dense_inv_def
proof (intro allI impI)
  fix st :: dense_store and k and w :: real
  assume a: "dense_wf st \<and> nonneg_bins st" "int64_min \<le> k" "k \<le> int64_max" "0 < w"
  obtain st' where st': "dense_add st k w = Inr st'" "dense_wf st'"
      "bin_count st' = (bin_count st)(k := bin_count st k + w)" "count st' = count st + w"
    using dense_add_Inr [of st k w] a by blast
  have "nonneg_bins st'"
    using a st'(3) by (simp add: nonneg_bins_bin_count add_nonneg_nonneg)
  then show "\<exists>st'. op_add dense_ops st k w = Inr st' \<and> (dense_wf st' \<and> nonneg_bins st') \<and>
      op_count dense_ops st' = op_count dense_ops st + w"
    using st' by (auto simp: dense_ops_def)
qed

lemma dense_merge_contract: "merge_contract dense_ops dense_inv"
  unfolding merge_contract_def dense_inv_def
proof (intro allI impI)
  fix st st2 :: dense_store
  assume a: "dense_wf st \<and> nonneg_bins st" "dense_wf st2 \<and> nonneg_bins st2"
  obtain st' where st': "dense_merge st st2 = Inr st'" "dense_wf st'" "nonneg_bins st'"
      "bin_count st' = abs_merge (bin_count st) (bin_count st2)"
    using dense_merge_Inr [of st st2] a by blast
  have "count st' = count st + count st2"
    using sum_list_bins_abs_merge [OF st'(4)] st'(2) a by (simp add: dense_wf_def)
  then show "\<exists>st'. op_merge dense_ops st st2 = Inr st' \<and> (dense_wf st' \<and> nonneg_bins st') \<and>
      op_count dense_ops st' = op_count dense_ops st + op_count dense_ops st2"
    using st' by (auto simp: dense_ops_def)
qed

lemma dense_copy_contract: "copy_contract dense_ops dense_inv"
proof -
  have "dense_wf st \<Longrightarrow> dense_wf st2 \<Longrightarrow> dense_wf (dense_copy st st2)" for st st2 :: dense_store
    by (rule dense_wf_copy) (simp_all add: dense_wf_def)
  then show ?thesis
    by (auto simp: copy_contract_def dense_inv_def dense_ops_def nonneg_bins_def)
qed


lemma dense_inv_count_nonneg: "dense_inv st \<Longrightarrow> 0 \<le> count st"
  by (simp add: dense_inv_def dense_wf_def nonneg_bins_def list_all_iff sum_list_nonneg)

lemma sketch_count_zero:
  assumes "sketch_wf dense_ops dense_inv s" "sketch_count s = 0"
  shows "bin_count (store s) = (\<lambda>k. 0)" "bin_count (negative_store s) = (\<lambda>k. 0)" "zero_count s = 0"
proof -
  have i: "dense_inv (store s)" "dense_inv (negative_store s)" "0 \<le> zero_count s"
    and c: "sketch_count s = zero_count s + count (store s) + count (negative_store s)"
    using assms(1) by (simp_all add: sketch_wf_def dense_ops_def)
  have n: "0 \<le> count (store s)" "0 \<le> count (negative_store s)"
    using i dense_inv_count_nonneg by blast+
  have z: "count (store s) = 0" "count (negative_store s) = 0" "zero_count s = 0"
    using c n i(3) assms(2) by linarith+
  show "bin_count (store s) = (\<lambda>k. 0)" "bin_count (negative_store s) = (\<lambda>k. 0)"
    using count_zero_bin_count i z unfolding dense_inv_def by blast+
  show "zero_count s = 0" by (rule z(3))
qed

lemma add_contractD:
  "add_contract ops sinv \<Longrightarrow> sinv st \<Longrightarrow> int64_min \<le> k \<Longrightarrow> k \<le> int64_max \<Longrightarrow> 0 < w \<Longrightarrow>
   \<exists>st'. op_add ops st k w = Inr st' \<and> sinv st' \<and> op_count ops st' = op_count ops st + w"
  unfolding add_contract_def by blast

lemma merge_contractD:
  "merge_contract ops sinv \<Longrightarrow> sinv st \<Longrightarrow> sinv st2 \<Longrightarrow>
   \<exists>st'. op_merge ops st st2 = Inr st' \<and> sinv st' \<and> op_count ops st' = op_count ops st + op_count ops st2"
  unfolding merge_contract_def by blast

lemma copy_contractD:
  "copy_contract ops sinv \<Longrightarrow> sinv st \<Longrightarrow> sinv st2 \<Longrightarrow>
   sinv (op_copy ops st st2) \<and> op_count ops (op_copy ops st st2) = op_count ops st2"
  unfolding copy_contract_def by blast

lemma abs_merge_zero [simp]: "abs_merge f (\<lambda>k. 0) = f" "abs_merge (\<lambda>k. 0) g = g"
  by (simp_all add: abs_merge_def)

lemma new_ddsketch_Inr:
  assumes "0 < a" "a < 1"
  shows "\<exists>m. new_logarithmic_mapping a 0 = Inr m \<and>
     new_ddsketch a = Inr (new_base_ddsketch m (new_dense_store kChunkSize) (new_dense_store kChunkSize))"
  using assms by (simp add: new_ddsketch_def new_logarithmic_mapping_def key_mapping_init_Inr)

lemma new_base_ddsketch_simps [simp]:
  "sketch_mapping (new_base_ddsketch m st nst) = m" "store (new_base_ddsketch m st nst) = st"
  "negative_store (new_base_ddsketch m st nst) = nst" "zero_count (new_base_ddsketch m st nst) = 0"
  "sketch_count (new_base_ddsketch m st nst) = 0" "sketch_max (new_base_ddsketch m st nst) = dbl_min"
  "sketch_min (new_base_ddsketch m st nst) = dbl_max" "sketch_sum (new_base_ddsketch m st nst) = 0"
  by (simp_all add: new_base_ddsketch_def)

lemma new_dense_sketch_wf:
  "sketch_wf dense_ops dense_inv (new_base_ddsketch m (new_dense_store kChunkSize) (new_dense_store kChunkSize))"
  by (simp add: sketch_wf_def dense_inv_def dense_ops_def new_dense_store_wf kChunkSize_def)


lemma new_ddsketch_eq:
  assumes "new_ddsketch a = Inr s"
  shows "new_logarithmic_mapping a 0 = Inr (sketch_mapping s)"
    "s = new_base_ddsketch (sketch_mapping s) (new_dense_store kChunkSize) (new_dense_store kChunkSize)"
  using assms by (auto simp: new_ddsketch_def res_bind_eq_Inr)

lemma dense_add_all_positive:
  assumes wf: "sketch_wf dense_ops dense_inv s"
    and pos: "\<forall>x\<in>set xs. min_possible (sketch_mapping s) < x \<and>
       int64_min \<le> mapping_key (sketch_mapping s) x \<and> mapping_key (sketch_mapping s) x \<le> int64_max"
  shows "\<exists>s'. sketch_add_all dense_ops s (map (\<lambda>x. (x, 1)) xs) = Inr s' \<and> sketch_wf dense_ops dense_inv s' \<and>
     sketch_mapping s' = sketch_mapping s \<and> negative_store s' = negative_store s \<and>
     zero_count s' = zero_count s \<and> sketch_count s' = sketch_count s + real (length xs) \<and>
     sketch_sum s' = sketch_sum s + sum_list xs \<and>
     bin_count (store s') = (\<lambda>k. bin_count (store s) k + real (count_list (map (mapping_key (sketch_mapping s)) xs) k))"
  using assms
proof (induction xs arbitrary: s)
  case Nil
  then show ?case by simp
next
  case (Cons x xs)
  let ?m = "sketch_mapping s"
  have x: "min_possible ?m < x" "int64_min \<le> mapping_key ?m x" "mapping_key ?m x \<le> int64_max"
    using Cons.prems(2) by auto
  have st: "dense_wf (store s)" "nonneg_bins (store s)"
    using Cons.prems(1) by (simp_all add: sketch_wf_def dense_inv_def)
  obtain st' where st': "dense_add (store s) (mapping_key ?m x) 1 = Inr st'" "dense_wf st'"
      "bin_count st' = (bin_count (store s))(mapping_key ?m x := bin_count (store s) (mapping_key ?m x) + 1)"
      "count st' = count (store s) + 1"
    using dense_add_Inr [OF st(1) x(2,3)] by blast
  have nn: "nonneg_bins st'"
    using st(2) st'(3) by (simp add: nonneg_bins_bin_count)
  let ?s1 = "add_stats (s\<lparr>store := st'\<rparr>) x 1"
  have add: "sketch_add dense_ops s x 1 = Inr ?s1"
    using x(1) st'(1) by (simp add: sketch_add_def dense_ops_def)
  have wf1: "sketch_wf dense_ops dense_inv ?s1"
    using Cons.prems(1) st'(2,4) nn by (simp add: sketch_wf_def dense_inv_def dense_ops_def)
  obtain s' where s': "sketch_add_all dense_ops ?s1 (map (\<lambda>x. (x, 1)) xs) = Inr s'"
      "sketch_wf dense_ops dense_inv s'" "sketch_mapping s' = ?m" "negative_store s' = negative_store s"
      "zero_count s' = zero_count s" "sketch_count s' = sketch_count s + 1 + real (length xs)"
      "sketch_sum s' = sketch_sum s + x * 1 + sum_list xs"
      "bin_count (store s') = (\<lambda>k. bin_count st' k + real (count_list (map (mapping_key ?m) xs) k))"
    using Cons.IH [OF wf1] Cons.prems(2) by auto
  have "bin_count (store s') =
        (\<lambda>k. bin_count (store s) k + real (count_list (map (mapping_key ?m) (x # xs)) k))"
    using s'(8) st'(3) by (auto simp: fun_eq_iff)
  then show ?case using add s' by auto
qed

lemma add_stats_extrema:
  "sketch_max (add_stats s v w) = max (sketch_max s) v" "sketch_min (add_stats s v w) = min (sketch_min s) v"
  by (simp_all add: add_stats_def Let_def)

lemma sketch_add_stats:
  assumes "sketch_add ops s v w = Inr t"
  shows "sketch_max t = max (sketch_max s) v \<and> sketch_min t = min (sketch_min s) v"
proof -
  obtain r where "t = add_stats r v w" "sketch_max r = sketch_max s" "sketch_min r = sketch_min s"
    using assms by (auto simp: sketch_add_def res_bind_eq_Inr split: if_splits)
  then show ?thesis by (simp add: add_stats_extrema)
qed

lemma sketch_add_all_stats:
  "sketch_add_all ops s kws = Inr s' \<Longrightarrow>
     sketch_max s' = fold max (map fst kws) (sketch_max s) \<and> sketch_min s' = fold min (map fst kws) (sketch_min s)"
proof (induction kws arbitrary: s)
  case Nil
  then show ?case by simp
next
  case (Cons vw kws)
  obtain v w where vw: "vw = (v, w)" by (cases vw)
  obtain t where t: "sketch_add ops s v w = Inr t" "sketch_add_all ops t kws = Inr s'"
    using Cons.prems vw by (auto simp: res_bind_eq_Inr)
  show ?case using Cons.IH [OF t(2)] sketch_add_stats [OF t(1)] vw by (simp add: max.commute min.commute)
qed

section \<open>Properties of the sketch\<close>

text \<open>
  C13. For any store type whose \<open>add\<close> meets its contract, \<open>add(v, w)\<close> with a positive
  weight and an \<open>Index\<close> key returns, keeps the sketch invariant
  (\<open>count_ = zero_count_ + store_.count() + negative_store_.count()\<close>), adds \<open>w\<close> to
  \<open>count_\<close> and \<open>v * w\<close> to \<open>sum_\<close>.
\<close>

theorem sketch_add_preserves:
  assumes ac: "add_contract ops sinv" and wf: "sketch_wf ops sinv s" and w: "0 < w"
    and mp: "0 \<le> min_possible (sketch_mapping s)"
    and k: "int64_min \<le> mapping_key (sketch_mapping s) \<bar>v\<bar>" "mapping_key (sketch_mapping s) \<bar>v\<bar> \<le> int64_max"
  shows "\<exists>s'. sketch_add ops s v w = Inr s' \<and> sketch_wf ops sinv s' \<and>
     sketch_count s' = sketch_count s + w \<and> sketch_sum s' = sketch_sum s + v * w \<and>
     sketch_mapping s' = sketch_mapping s"
proof -
  let ?m = "sketch_mapping s"
  have wf': "sinv (store s)" "sinv (negative_store s)" "0 \<le> zero_count s"
    "sketch_count s = zero_count s + op_count ops (store s) + op_count ops (negative_store s)"
    using wf by (simp_all add: sketch_wf_def)
  consider (pos) "min_possible ?m < v" | (neg) "\<not> min_possible ?m < v" "v < - min_possible ?m"
    | (zero) "\<not> min_possible ?m < v" "\<not> v < - min_possible ?m" by blast
  then show ?thesis
  proof cases
    case pos
    then have "\<bar>v\<bar> = v" using mp by simp
    then obtain st' where "op_add ops (store s) (mapping_key ?m v) w = Inr st'" "sinv st'"
        "op_count ops st' = op_count ops (store s) + w"
      using add_contractD [OF ac wf'(1) _ _ w] k by auto
    then show ?thesis using pos w wf' by (simp add: sketch_add_def sketch_wf_def)
  next
    case neg
    then have "\<bar>v\<bar> = - v" using mp by simp
    then obtain st' where "op_add ops (negative_store s) (mapping_key ?m (- v)) w = Inr st'" "sinv st'"
        "op_count ops st' = op_count ops (negative_store s) + w"
      using add_contractD [OF ac wf'(2) _ _ w] k by auto
    then show ?thesis using neg w wf' by (simp add: sketch_add_def sketch_wf_def)
  next
    case zero
    then show ?thesis using w wf' by (simp add: sketch_add_def sketch_wf_def)
  qed
qed

theorem sketch_add_preserves_witness:
  "let m = \<lparr>mapping_kind = Logarithmic, relative_accuracy = 1/2, mapping_offset = 0, gamma = 3,
            min_possible = dbl_min * 3, max_possible = dbl_max / 3, multiplier = 1 / ln 3 * ln 2\<rparr>;
       s = new_base_ddsketch m (new_dense_store kChunkSize) (new_dense_store kChunkSize)
   in add_contract dense_ops dense_inv \<and> sketch_wf dense_ops dense_inv s \<and> (0 :: real) < 1 \<and>
      0 \<le> min_possible (sketch_mapping s) \<and>
      int64_min \<le> mapping_key (sketch_mapping s) \<bar>1\<bar> \<and> mapping_key (sketch_mapping s) \<bar>1\<bar> \<le> int64_max \<and>
      (\<exists>s'. sketch_add dense_ops s 1 1 = Inr s' \<and> sketch_wf dense_ops dense_inv s' \<and>
         sketch_count s' = sketch_count s + 1 \<and> sketch_sum s' = sketch_sum s + 1 * 1 \<and>
         sketch_mapping s' = sketch_mapping s)"
proof -
  let ?m = "\<lparr>mapping_kind = Logarithmic, relative_accuracy = 1/2, mapping_offset = 0, gamma = 3,
            min_possible = dbl_min * 3, max_possible = dbl_max / 3, multiplier = 1 / ln 3 * ln 2\<rparr>"
  let ?s = "new_base_ddsketch ?m (new_dense_store kChunkSize) (new_dense_store kChunkSize)"
  have h: "add_contract dense_ops dense_inv" "sketch_wf dense_ops dense_inv ?s" "(0 :: real) < 1"
    "0 \<le> min_possible (sketch_mapping ?s)"
    "int64_min \<le> mapping_key (sketch_mapping ?s) \<bar>1\<bar>" "mapping_key (sketch_mapping ?s) \<bar>1\<bar> \<le> int64_max"
    by (simp_all add: dense_add_contract new_dense_sketch_wf dbl_min_def mapping_key_def
        int64_min_def int64_max_def trunc_cast_def)
  show ?thesis using h sketch_add_preserves [OF h] by (simp only: Let_def)
qed

text \<open>
  C14. For stores whose \<open>merge\<close> and \<open>copy\<close> meet their contracts, merging two
  well-formed sketches with equal \<open>gamma\<close> returns a well-formed sketch whose count is
  the sum of both counts, on each of the three paths (other empty, this empty, both not).
\<close>

theorem sketch_merge_preserves:
  assumes ac: "merge_contract ops sinv" and cc: "copy_contract ops sinv"
    and wfs: "sketch_wf ops sinv s" and wft: "sketch_wf ops sinv t" and mg: "mergeable s t"
  shows "\<exists>s'. sketch_merge ops s t = Inr s' \<and> sketch_wf ops sinv s' \<and>
     sketch_count s' = sketch_count s + sketch_count t \<and> sketch_mapping s' = sketch_mapping s"
proof -
  have s': "sinv (store s)" "sinv (negative_store s)" "0 \<le> zero_count s"
    "sketch_count s = zero_count s + op_count ops (store s) + op_count ops (negative_store s)"
    using wfs by (simp_all add: sketch_wf_def)
  have t': "sinv (store t)" "sinv (negative_store t)" "0 \<le> zero_count t"
    "sketch_count t = zero_count t + op_count ops (store t) + op_count ops (negative_store t)"
    using wft by (simp_all add: sketch_wf_def)
  consider (t0) "sketch_count t = 0" | (s0) "sketch_count t \<noteq> 0" "sketch_count s = 0"
    | (both) "sketch_count t \<noteq> 0" "sketch_count s \<noteq> 0" by blast
  then show ?thesis
  proof cases
    case t0
    then show ?thesis using mg wfs by (simp add: sketch_merge_def)
  next
    case s0
    then show ?thesis
      using mg copy_contractD [OF cc s'(1) t'(1)] copy_contractD [OF cc s'(2) t'(2)] t'
      by (simp add: sketch_merge_def sketch_copy_def sketch_wf_def)
  next
    case both
    obtain st where st: "op_merge ops (store s) (store t) = Inr st" "sinv st"
        "op_count ops st = op_count ops (store s) + op_count ops (store t)"
      using merge_contractD [OF ac s'(1) t'(1)] by blast
    obtain nst where nst: "op_merge ops (negative_store s) (negative_store t) = Inr nst" "sinv nst"
        "op_count ops nst = op_count ops (negative_store s) + op_count ops (negative_store t)"
      using merge_contractD [OF ac s'(2) t'(2)] by blast
    show ?thesis
      using both mg st nst s' t' by (simp add: sketch_merge_def sketch_wf_def Let_def)
  qed
qed

theorem sketch_merge_preserves_witness:
  "let m = \<lparr>mapping_kind = Logarithmic, relative_accuracy = 1/2, mapping_offset = 0, gamma = 3,
            min_possible = dbl_min * 3, max_possible = dbl_max / 3, multiplier = 1 / ln 3 * ln 2\<rparr>;
       s = new_base_ddsketch m (new_dense_store kChunkSize) (new_dense_store kChunkSize)
   in merge_contract dense_ops dense_inv \<and> copy_contract dense_ops dense_inv \<and>
      sketch_wf dense_ops dense_inv s \<and> mergeable s s \<and>
      (\<exists>s'. sketch_merge dense_ops s s = Inr s' \<and> sketch_wf dense_ops dense_inv s' \<and>
         sketch_count s' = sketch_count s + sketch_count s \<and> sketch_mapping s' = sketch_mapping s)"
proof -
  let ?m = "\<lparr>mapping_kind = Logarithmic, relative_accuracy = 1/2, mapping_offset = 0, gamma = 3,
            min_possible = dbl_min * 3, max_possible = dbl_max / 3, multiplier = 1 / ln 3 * ln 2\<rparr>"
  let ?s = "new_base_ddsketch ?m (new_dense_store kChunkSize) (new_dense_store kChunkSize)"
  have h: "merge_contract dense_ops dense_inv" "copy_contract dense_ops dense_inv"
    "sketch_wf dense_ops dense_inv ?s" "mergeable ?s ?s"
    by (simp_all add: dense_merge_contract dense_copy_contract new_dense_sketch_wf mergeable_def)
  show ?thesis using h sketch_merge_preserves [OF h(1,2,3,3,4)] by (simp only: Let_def)
qed

text \<open>
  C15. On dense stores, merging sketches adds the counters of both positive stores key by
  key, and likewise the negative stores and the zero counts.
\<close>

theorem dense_sketch_merge_bins:
  assumes wfs: "sketch_wf dense_ops dense_inv s" and wft: "sketch_wf dense_ops dense_inv t"
    and mg: "mergeable s t"
  shows "\<exists>s'. sketch_merge dense_ops s t = Inr s' \<and>
     bin_count (store s') = abs_merge (bin_count (store s)) (bin_count (store t)) \<and>
     bin_count (negative_store s') = abs_merge (bin_count (negative_store s)) (bin_count (negative_store t)) \<and>
     zero_count s' = zero_count s + zero_count t"
proof -
  have s': "dense_inv (store s)" "dense_inv (negative_store s)"
    using wfs by (simp_all add: sketch_wf_def)
  have t': "dense_inv (store t)" "dense_inv (negative_store t)"
    using wft by (simp_all add: sketch_wf_def)
  consider (t0) "sketch_count t = 0" | (s0) "sketch_count t \<noteq> 0" "sketch_count s = 0"
    | (both) "sketch_count t \<noteq> 0" "sketch_count s \<noteq> 0" by blast
  then show ?thesis
  proof cases
    case t0
    then show ?thesis using mg sketch_count_zero [OF wft] by (simp add: sketch_merge_def)
  next
    case s0
    then show ?thesis using mg sketch_count_zero [OF wfs]
      by (simp add: sketch_merge_def sketch_copy_def dense_ops_def)
  next
    case both
    obtain st where st: "dense_merge (store s) (store t) = Inr st"
        "bin_count st = abs_merge (bin_count (store s)) (bin_count (store t))"
      using dense_merge_Inr s'(1) t'(1) unfolding dense_inv_def by blast
    obtain nst where nst: "dense_merge (negative_store s) (negative_store t) = Inr nst"
        "bin_count nst = abs_merge (bin_count (negative_store s)) (bin_count (negative_store t))"
      using dense_merge_Inr s'(2) t'(2) unfolding dense_inv_def by blast
    show ?thesis
      using both mg st nst by (simp add: sketch_merge_def dense_ops_def Let_def)
  qed
qed

theorem dense_sketch_merge_bins_witness:
  "let m = \<lparr>mapping_kind = Logarithmic, relative_accuracy = 1/2, mapping_offset = 0, gamma = 3,
            min_possible = dbl_min * 3, max_possible = dbl_max / 3, multiplier = 1 / ln 3 * ln 2\<rparr>;
       s = new_base_ddsketch m (new_dense_store kChunkSize) (new_dense_store kChunkSize)
   in sketch_wf dense_ops dense_inv s \<and> mergeable s s \<and>
      (\<exists>s'. sketch_merge dense_ops s s = Inr s' \<and>
         bin_count (store s') = abs_merge (bin_count (store s)) (bin_count (store s)) \<and>
         bin_count (negative_store s') = abs_merge (bin_count (negative_store s)) (bin_count (negative_store s)) \<and>
         zero_count s' = zero_count s + zero_count s)"
proof -
  let ?m = "\<lparr>mapping_kind = Logarithmic, relative_accuracy = 1/2, mapping_offset = 0, gamma = 3,
            min_possible = dbl_min * 3, max_possible = dbl_max / 3, multiplier = 1 / ln 3 * ln 2\<rparr>"
  let ?s = "new_base_ddsketch ?m (new_dense_store kChunkSize) (new_dense_store kChunkSize)"
  have h: "sketch_wf dense_ops dense_inv ?s" "mergeable ?s ?s"
    by (simp_all add: new_dense_sketch_wf mergeable_def)
  show ?thesis using h dense_sketch_merge_bins [OF h(1,1,2)] by (simp only: Let_def)
qed

text \<open>C17. \<open>add\<close> with a weight that is not positive throws \<open>IllegalArgumentException\<close>.\<close>

theorem sketch_add_nonpositive_weight:
  "weight \<le> 0 \<Longrightarrow> sketch_add ops s v weight = Inl IllegalArgument"
  by (simp add: sketch_add_def)

theorem sketch_add_nonpositive_weight_witness:
  "(0 :: real) \<le> 0 \<and>
   sketch_add dense_ops (new_base_ddsketch
      \<lparr>mapping_kind = Logarithmic, relative_accuracy = 1/2, mapping_offset = 0, gamma = 3,
       min_possible = dbl_min * 3, max_possible = dbl_max / 3, multiplier = 1 / ln 3 * ln 2\<rparr>
      (new_dense_store kChunkSize) (new_dense_store kChunkSize)) 1 0 = Inl IllegalArgument"
  using sketch_add_nonpositive_weight [of 0] by simp

text \<open>C18. \<open>merge\<close> of sketches whose mappings have different \<open>gamma\<close> throws \<open>UnequalSketchParametersException\<close>.\<close>

theorem sketch_merge_unequal_gamma:
  "gamma (sketch_mapping s) \<noteq> gamma (sketch_mapping t) \<Longrightarrow>
   sketch_merge ops s t = Inl UnequalSketchParameters"
  by (simp add: sketch_merge_def mergeable_def)

theorem sketch_merge_unequal_gamma_witness:
  "let s = new_base_ddsketch
      \<lparr>mapping_kind = Logarithmic, relative_accuracy = 1/2, mapping_offset = 0, gamma = 3,
       min_possible = dbl_min * 3, max_possible = dbl_max / 3, multiplier = 1 / ln 3 * ln 2\<rparr>
      (new_dense_store kChunkSize) (new_dense_store kChunkSize);
       t = new_base_ddsketch
      \<lparr>mapping_kind = Logarithmic, relative_accuracy = 1/3, mapping_offset = 0, gamma = 2,
       min_possible = dbl_min * 2, max_possible = dbl_max / 2, multiplier = 1 / ln 2 * ln 2\<rparr>
      (new_dense_store kChunkSize) (new_dense_store kChunkSize)
   in gamma (sketch_mapping s) \<noteq> gamma (sketch_mapping t) \<and>
      sketch_merge dense_ops s t = Inl UnequalSketchParameters"
  using sketch_merge_unequal_gamma [of
      "new_base_ddsketch
      \<lparr>mapping_kind = Logarithmic, relative_accuracy = 1/2, mapping_offset = 0, gamma = 3,
       min_possible = dbl_min * 3, max_possible = dbl_max / 3, multiplier = 1 / ln 3 * ln 2\<rparr>
      (new_dense_store kChunkSize) (new_dense_store kChunkSize)"
      "new_base_ddsketch
      \<lparr>mapping_kind = Logarithmic, relative_accuracy = 1/3, mapping_offset = 0, gamma = 2,
       min_possible = dbl_min * 2, max_possible = dbl_max / 2, multiplier = 1 / ln 2 * ln 2\<rparr>
      (new_dense_store kChunkSize) (new_dense_store kChunkSize)" dense_ops]
  by (simp add: Let_def)

text \<open>
  C16. \<open>get_quantile_value\<close> is \<open>NaN\<close> exactly for a quantile outside \<open>[0, 1]\<close> or an
  empty sketch; otherwise it returns a value.
\<close>

theorem get_quantile_value_nan:
  "get_quantile_value ops s q = None \<longleftrightarrow> q < 0 \<or> 1 < q \<or> sketch_count s = 0"
  by (simp add: get_quantile_value_def Let_def)

text \<open>
  C19. \<open>max_\<close> starts at \<open>numeric_limits<double>::min()\<close>, the smallest positive
  double, while \<open>min_\<close> starts at \<open>numeric_limits<double>::max()\<close>.  For every
  non-empty run of adds of non-positive values to a new \<open>DDSketch\<close>, \<open>min_\<close>
  becomes the smallest value added, but \<open>max_\<close> stays that positive number and is
  never the largest value added.
\<close>

theorem negative_values_keep_positive_max:
  assumes "new_ddsketch a = Inr s" "sketch_add_all dense_ops s kws = Inr s'" "kws \<noteq> []"
    and neg: "\<forall>(v, w) \<in> set kws. v \<le> 0"
  shows "sketch_max s' = dbl_min \<and> 0 < dbl_min \<and> sketch_min s' = Min (fst ` set kws)"
proof -
  have s0: "sketch_max s = dbl_min" "sketch_min s = dbl_max"
    by (subst new_ddsketch_eq(2) [OF assms(1)], simp)+
  have pos: "0 < dbl_min" "0 < dbl_max" by (simp_all add: dbl_min_def dbl_max_def)
  have vals: "\<forall>v \<in> set (map fst kws). v \<le> 0" using neg by auto
  have "fold max (map fst kws) dbl_min = Max (set (dbl_min # map fst kws))"
    by (simp only: Max.set_eq_fold)
  also have "\<dots> = dbl_min" using vals pos by (intro Max_eqI) auto
  finally have mx: "fold max (map fst kws) dbl_min = dbl_min" .
  have "fold min (map fst kws) dbl_max = Min (set (dbl_max # map fst kws))"
    by (simp only: Min.set_eq_fold)
  also have "\<dots> = Min (fst ` set kws)"
  proof -
    have ne: "fst ` set kws \<noteq> {}" using assms(3) by simp
    have "Min (insert dbl_max (fst ` set kws)) = min dbl_max (Min (fst ` set kws))"
      using ne by (simp add: Min_insert)
    moreover have "Min (fst ` set kws) \<le> 0"
    proof -
      obtain p where p: "p \<in> set kws" using assms(3) by (cases kws) auto
      then have "Min (fst ` set kws) \<le> fst p" by simp
      moreover have "fst p \<le> 0" using p vals by simp
      ultimately show ?thesis by linarith
    qed
    ultimately show ?thesis using pos by simp
  qed
  finally show ?thesis using sketch_add_all_stats [OF assms(2)] s0 mx pos by simp
qed

theorem negative_values_keep_positive_max_witness:
  "\<exists>s s'. new_ddsketch (1/100) = Inr s \<and> sketch_add_all dense_ops s [(-1, 1)] = Inr s' \<and>
      sketch_max s' = dbl_min \<and> 0 < dbl_min \<and> sketch_min s' = -1"
proof -
  obtain m where m: "new_logarithmic_mapping (1/100) 0 = Inr m"
      and s: "new_ddsketch (1/100) = Inr (new_base_ddsketch m (new_dense_store kChunkSize) (new_dense_store kChunkSize))"
    using new_ddsketch_Inr [of "1/100"] by auto
  have mp: "min_possible m = dbl_min * (101 / 99)"
    using m by (auto simp: new_logarithmic_mapping_def key_mapping_init_def Let_def)
  have route: "\<not> min_possible m < -1" "-1 < - min_possible m"
    unfolding mp dbl_min_def by simp_all
  have k: "mapping_key m (- (-1)) = 0"
    using new_logarithmic_mapping_Inr [OF m] by (simp add: mapping_key_def trunc_cast_def)
  obtain st' where st': "dense_add (new_dense_store kChunkSize) 0 1 = Inr st'"
    using dense_add_Inr [OF new_dense_store_wf, of kChunkSize 0 1]
    by (auto simp: kChunkSize_def int64_min_def int64_max_def)
  have "sketch_add dense_ops (new_base_ddsketch m (new_dense_store kChunkSize) (new_dense_store kChunkSize)) (-1) 1 =
        Inr (add_stats ((new_base_ddsketch m (new_dense_store kChunkSize) (new_dense_store kChunkSize))
               \<lparr>negative_store := st'\<rparr>) (-1) 1)"
    using route k st' by (simp add: sketch_add_def dense_ops_def)
  then have add1: "sketch_add_all dense_ops (new_base_ddsketch m (new_dense_store kChunkSize) (new_dense_store kChunkSize))
      [(-1, 1)] = Inr (add_stats ((new_base_ddsketch m (new_dense_store kChunkSize) (new_dense_store kChunkSize))
               \<lparr>negative_store := st'\<rparr>) (-1) 1)" by simp
  have neg: "\<forall>(v, w) \<in> set [(-1 :: real, 1 :: real)]. v \<le> 0" by simp
  have "[(-1 :: real, 1 :: real)] \<noteq> []" by simp
  note r = negative_values_keep_positive_max [OF s add1 this neg]
  show ?thesis using s add1 r by auto
qed

text \<open>
  C22. The two collapsing sketches replace a non-positive \<open>bin_limit\<close> by
  \<open>kDefaultBinLimit = 2048\<close> before building their stores, so both stores of such a
  sketch have the same positive limit and start uncollapsed; C20 and C21 then apply
  to their first \<open>add\<close>, and the undefined behaviour of C6 and C7 is not reachable
  through the sketch.
\<close>

theorem collapsing_sketch_limit_positive:
  assumes "new_log_collapsing_lowest_ddsketch a limit = Inr s \<or> new_log_collapsing_highest_ddsketch a limit = Inr s"
  shows "0 < bin_limit (store s) \<and> bin_limit (negative_store s) = bin_limit (store s) \<and>
     bin_limit (store s) = (if limit \<le> 0 then 2048 else limit) \<and> \<not> is_collapsed (store s)"
  using assms
  by (auto simp: new_log_collapsing_lowest_ddsketch_def new_log_collapsing_highest_ddsketch_def
      res_bind_eq_Inr adjust_bin_limit_def kDefaultBinLimit_def new_collapsing_store_def)

theorem collapsing_sketch_limit_positive_witness:
  "let s = new_base_ddsketch
      \<lparr>mapping_kind = Logarithmic, relative_accuracy = 1/2, mapping_offset = 0, gamma = 3,
       min_possible = dbl_min * 3, max_possible = dbl_max / 3, multiplier = 1 / ln 3 * ln 2\<rparr>
      (new_collapsing_store 2048 kChunkSize) (new_collapsing_store 2048 kChunkSize)
   in (new_log_collapsing_lowest_ddsketch (1/2) 0 = Inr s \<or> new_log_collapsing_highest_ddsketch (1/2) 0 = Inr s) \<and>
      0 < bin_limit (store s) \<and> bin_limit (negative_store s) = bin_limit (store s) \<and>
      bin_limit (store s) = (if (0 :: int) \<le> 0 then 2048 else 0) \<and> \<not> is_collapsed (store s)"
proof -
  let ?s = "new_base_ddsketch
      \<lparr>mapping_kind = Logarithmic, relative_accuracy = 1/2, mapping_offset = 0, gamma = 3,
       min_possible = dbl_min * 3, max_possible = dbl_max / 3, multiplier = 1 / ln 3 * ln 2\<rparr>
      (new_collapsing_store 2048 kChunkSize) (new_collapsing_store 2048 kChunkSize)"
  have h: "new_log_collapsing_lowest_ddsketch (1/2) 0 = Inr ?s \<or> new_log_collapsing_highest_ddsketch (1/2) 0 = Inr ?s"
    by (simp add: new_log_collapsing_lowest_ddsketch_def new_logarithmic_mapping_def key_mapping_init_def
        adjust_bin_limit_def kDefaultBinLimit_def)
  show ?thesis unfolding Let_def by (intro conjI h collapsing_sketch_limit_positive [OF h])
qed

end
