(* ===== verification/LowestCollapse.thy ===== *)
theory LowestCollapse
  imports CollapsingStore
begin

text \<open>
  Collapse correctness of \<open>CollapsingLowestDenseStore\<close> (ddsketch.h): a run of
  \<open>add\<close> calls on a new store with a positive \<open>bin_limit\<close> ends in a store whose
  counters are those of the added keys, each key below
  \<open>max_key - bin_limit + 1\<close> moved up to that key (\<open>clamp_count\<close>).

  \<open>lowest_inv\<close> is the store's invariant: the dense-store invariant, a positive
  limit, at most \<open>bin_limit\<close> bins and, once collapsed, a window that starts at
  \<open>min_key_ = max_key_ - bin_limit + 1\<close>. \<open>adj_pre\<close> and \<open>adj_post\<close> are the
  contract of \<open>adjust\<close>: after it, the counters below the new lower end are
  summed into it (\<open>fold_below\<close>). The four branches of \<open>adjust\<close> (centre, wipe,
  shift right, collapse and shift left) are one lemma each; \<open>extend_range\<close>,
  \<open>get_index\<close> and \<open>add\<close> are composed from them, and the run of adds follows by
  induction.
\<close>

section \<open>Invariant, contract of adjust and the clamped counts\<close>

definition lowest_inv :: "'a collapsing_store_scheme \<Rightarrow> bool" where
  "lowest_inv s \<longleftrightarrow> dense_wf s \<and> 0 < bin_limit s \<and> store_length s \<le> bin_limit s \<and>
     (is_collapsed s \<longrightarrow> offset s = min_key s \<and> min_key s = max_key s - bin_limit s + 1)"

definition fold_below :: "index \<Rightarrow> index \<Rightarrow> (index \<Rightarrow> real) \<Rightarrow> index \<Rightarrow> real" where
  "fold_below lo_from lo f j = (if j < lo then 0 else if j = lo then sum f {lo_from..lo} else f j)"

definition clamp_count :: "index \<Rightarrow> (index \<times> real) list \<Rightarrow> index \<Rightarrow> real" where
  "clamp_count lo kws k = sum_list (map snd (filter (\<lambda>(v, w). max v lo = k) kws))"

definition adj_pre :: "'a collapsing_store_scheme \<Rightarrow> index \<Rightarrow> index \<Rightarrow> bool" where
  "adj_pre t a b \<longleftrightarrow> 0 < chunk_size t \<and> count t = sum_list (bins t) \<and> 0 < bin_limit t \<and>
     store_length t \<le> bin_limit t \<and> bins t \<noteq> [] \<and>
     offset t \<le> min_key t \<and> min_key t \<le> max_key t \<and> max_key t < offset t + store_length t \<and>
     (\<forall>k. bin_count t k \<noteq> 0 \<longrightarrow> min_key t \<le> k \<and> k \<le> max_key t) \<and>
     int64_min \<le> a \<and> a \<le> min_key t \<and> max_key t \<le> b \<and> b \<le> int64_max \<and>
     (is_collapsed t \<longrightarrow> offset t = min_key t \<and> min_key t = max_key t - bin_limit t + 1 \<and>
        a = min_key t \<and> max_key t < b)"

definition adj_post :: "'a collapsing_store_scheme \<Rightarrow> index \<Rightarrow> index \<Rightarrow> 'a collapsing_store_scheme \<Rightarrow> bool" where
  "adj_post t a b t' \<longleftrightarrow> lowest_inv t' \<and> bins t' \<noteq> [] \<and> bin_limit t' = bin_limit t \<and>
     chunk_size t' = chunk_size t \<and> count t' = count t \<and> max_key t' = b \<and>
     min_key t' = max a (b - bin_limit t + 1) \<and>
     bin_count t' = fold_below (min_key t) (b - bin_limit t + 1) (bin_count t) \<and>
     (is_collapsed t' \<longleftrightarrow> is_collapsed t \<or> bin_limit t < b - a + 1)"

text \<open>
  The range in which the collapsing stores' \<open>Index\<close> arithmetic is exact.  With
  keys of magnitude at most \<open>2^40\<close>, every \<open>new_max_key - new_min_key + 1\<close>, the
  product \<open>chunk_size_ * num_chunks\<close> (at most that width plus one chunk, or one
  chunk) and every offset, \<open>offset_ + length()\<close> and \<open>key - offset_\<close> stay far
  inside \<open>int64_t\<close>, and \<open>1.0 * desired_length\<close> is an exact double.  With
  \<open>bin_limit\<close> below \<open>2^31\<close>, every bin index fits the \<open>int\<close> of
  \<open>BinList::operator[]\<close>.  Outside this range the C++ wraps: keys
  \<open>INT64_MIN\<close> and \<open>INT64_MAX\<close> make the width test of \<open>adjust\<close> compute 0.
  The keys a mapping gives to finite doubles are far smaller: about
  \<open>709 / (2 * relative_accuracy)\<close>.
\<close>

definition collapse_safe :: "index \<Rightarrow> (index \<times> real) list \<Rightarrow> bool" where
  "collapse_safe limit kws \<longleftrightarrow> limit < 2 ^ 31 \<and> list_all (\<lambda>(k, w). - (2 ^ 40) \<le> k \<and> k \<le> 2 ^ 40) kws"

section \<open>Helpers\<close>

lemma collapse_safe_keys_in_range: "collapse_safe limit kws \<Longrightarrow> keys_in_range kws"
  by (auto simp: collapse_safe_def keys_in_range_def list_all_iff int64_min_def int64_max_def)

lemma collapsed_upd [simp]:
  "bin_count (s\<lparr>is_collapsed := c\<rparr>) = bin_count s" "store_length (s\<lparr>is_collapsed := c\<rparr>) = store_length s"
  by (simp_all add: bin_count_def store_length_def fun_eq_iff)

lemma dense_wf_intro:
  assumes "0 < chunk_size s" "bins s \<noteq> []" "int64_min \<le> min_key s" "max_key s \<le> int64_max"
    "offset s \<le> min_key s" "min_key s \<le> max_key s" "max_key s < offset s + store_length s"
    "\<forall>k. bin_count s k \<noteq> 0 \<longrightarrow> min_key s \<le> k \<and> k \<le> max_key s" "count s = sum_list (bins s)"
  shows "dense_wf s"
  using assms by (simp add: dense_wf_def bin_count_support)

lemma fold_below_id:
  assumes "\<forall>j. f j \<noteq> 0 \<longrightarrow> m \<le> j" "lo \<le> m"
  shows "fold_below m lo f = f"
proof
  fix j
  show "fold_below m lo f j = f j"
  proof (cases "lo < m")
    case True
    then show ?thesis using assms by (fastforce simp: fold_below_def)
  next
    case False
    then have "lo = m" using assms(2) by simp
    then show ?thesis using assms(1) by (fastforce simp: fold_below_def)
  qed
qed

lemma sum_fold_below:
  assumes K: "finite K" "{m..lo} \<subseteq> K" and f: "\<forall>j. f j \<noteq> 0 \<longrightarrow> j \<in> K \<and> m \<le> j" and lo: "m \<le> lo"
  shows "sum (fold_below m lo f) K = sum f K"
proof -
  let ?K1 = "{j\<in>K. j \<le> lo}" and ?K2 = "{j\<in>K. lo < j}"
  have split: "K = ?K1 \<union> ?K2" "?K1 \<inter> ?K2 = {}" by auto
  have fin: "finite ?K1" "finite ?K2" using K(1) by simp_all
  have lok: "lo \<in> ?K1" using K(2) lo by auto
  have s2: "sum (fold_below m lo f) ?K2 = sum f ?K2"
    by (rule sum.cong) (auto simp: fold_below_def)
  have "sum (fold_below m lo f) ?K1 = fold_below m lo f lo + sum (fold_below m lo f) (?K1 - {lo})"
    using sum.remove [OF fin(1) lok] .
  also have "sum (fold_below m lo f) (?K1 - {lo}) = 0"
    by (rule sum.neutral) (auto simp: fold_below_def)
  finally have s1: "sum (fold_below m lo f) ?K1 = sum f {m..lo}"
    by (simp add: fold_below_def)
  have s1': "sum f ?K1 = sum f {m..lo}"
    by (rule sum.mono_neutral_right) (use fin K f in auto)
  have "sum (fold_below m lo f) K = sum (fold_below m lo f) ?K1 + sum (fold_below m lo f) ?K2"
    by (subst split(1)) (rule sum.union_disjoint [OF fin split(2)])
  also have "\<dots> = sum f ?K1 + sum f ?K2" using s1 s1' s2 by simp
  also have "\<dots> = sum f K"
    by (subst (2) split(1)) (rule sum.union_disjoint [OF fin split(2), symmetric])
  finally show ?thesis .
qed

lemma lowest_inv_window:
  assumes "lowest_inv s" "bins s \<noteq> []"
  shows "offset s \<le> min_key s" "min_key s \<le> max_key s" "max_key s < offset s + store_length s"
    "max_key s - bin_limit s + 1 \<le> min_key s" "0 < bin_limit s" "store_length s \<le> bin_limit s"
  using assms by (auto simp: lowest_inv_def dense_wf_def)

section \<open>The branches of adjust\<close>

lemma lowest_adjust_center:
  assumes pre: "adj_pre t a b" and fits: "b - a + 1 \<le> store_length t"
  shows "\<exists>t'. lowest_adjust t a b = Inr t' \<and> adj_post t a b t'"
proof -
  have p: "0 < chunk_size t" "count t = sum_list (bins t)" "0 < bin_limit t" "store_length t \<le> bin_limit t"
    "bins t \<noteq> []" "offset t \<le> min_key t" "min_key t \<le> max_key t" "max_key t < offset t + store_length t"
    "\<forall>k. bin_count t k \<noteq> 0 \<longrightarrow> min_key t \<le> k \<and> k \<le> max_key t"
    "int64_min \<le> a" "a \<le> min_key t" "max_key t \<le> b" "b \<le> int64_max"
    using pre by (simp_all add: adj_pre_def)
  have nc: "\<not> is_collapsed t"
    using pre fits p(4) by (auto simp: adj_pre_def)
  have supp: "\<forall>k. bin_count t k \<noteq> 0 \<longrightarrow> a \<le> k \<and> k \<le> b"
    using p(9,11,12) by force
  have eq: "lowest_adjust t a b = dense_adjust t a b"
    using fits by (simp add: lowest_adjust_def dense_adjust_def)
  obtain bs o' where d: "dense_adjust t a b = Inr (t\<lparr>bins := bs, offset := o', min_key := a, max_key := b\<rparr>)"
      "length bs = length (bins t)" "o' \<le> a" "b < o' + store_length t"
      "bin_count (t\<lparr>bins := bs, offset := o'\<rparr>) = bin_count t"
    using dense_adjust_Inr [of a b t] p fits supp by auto
  let ?t' = "t\<lparr>bins := bs, offset := o', min_key := a, max_key := b\<rparr>"
  have bc: "bin_count ?t' = bin_count t"
    using d(5) by (metis bin_count_upd(1,2) dense_store.update_convs(2,3) dense_store.surjective)
  have sum: "sum_list bs = sum_list (bins t)"
    using sum_list_bins_cong [OF d(5)] by simp
  have len: "store_length ?t' = store_length t" using d(2) by (simp add: store_length_def)
  have wf: "dense_wf ?t'"
    by (rule dense_wf_intro) (use p d bc sum len supp in \<open>auto simp: store_length_def\<close>)
  have lo: "b - bin_limit t + 1 \<le> a" using fits p(4) by simp
  have fold: "fold_below (min_key t) (b - bin_limit t + 1) (bin_count t) = bin_count t"
    by (rule fold_below_id) (use p(9,11) lo in auto)
  have "adj_post t a b ?t'"
    using wf p len nc fold bc lo d(2) by (auto simp: adj_post_def lowest_inv_def store_length_def)
  then show ?thesis using eq d(1) by auto
qed

lemma adj_pre_facts:
  assumes "adj_pre t a b"
  shows "0 < chunk_size t" "count t = sum_list (bins t)" "0 < bin_limit t" "store_length t \<le> bin_limit t"
    "bins t \<noteq> []" "offset t \<le> min_key t" "min_key t \<le> max_key t" "max_key t < offset t + store_length t"
    "\<forall>k. bin_count t k \<noteq> 0 \<longrightarrow> min_key t \<le> k \<and> k \<le> max_key t"
    "int64_min \<le> a" "a \<le> min_key t" "max_key t \<le> b" "b \<le> int64_max"
  using assms by (simp_all add: adj_pre_def)

lemma sum_window_count:
  assumes p: "adj_pre t a b" and hi: "max_key t \<le> h"
  shows "sum (bin_count t) {min_key t..h} = count t"
proof -
  note f = adj_pre_facts [OF p]
  let ?K = "{min_key t..h} \<union> {offset t..<offset t + store_length t}"
  have "sum_list (bins t) = sum (bin_count t) ?K"
    by (rule sum_list_bins_superset) auto
  also have "\<dots> = sum (bin_count t) {min_key t..h}"
    by (rule sum.mono_neutral_right) (use f(9) hi in auto)
  finally show ?thesis using f(2) by simp
qed

lemma lowest_adjust_wipe:
  assumes pre: "adj_pre t a b" and len: "store_length t = bin_limit t"
    and wide: "bin_limit t < b - a + 1" and wipe: "max_key t \<le> b - bin_limit t + 1"
  shows "\<exists>t'. lowest_adjust t a b = Inr t' \<and> adj_post t a b t'"
proof -
  note p = adj_pre_facts [OF pre]
  let ?L = "bin_limit t" and ?nm = "b - bin_limit t + 1"
  let ?zs = "(initialize_with_zeros (nat ?L))[0 := count t]"
  let ?t' = "t\<lparr>offset := ?nm, min_key := ?nm, bins := ?zs, max_key := b, is_collapsed := True\<rparr>"
  have set0: "bl_set (initialize_with_zeros (nat ?L)) 0 (count t) = Inr ?zs"
    using p(3) by (simp add: bl_set_def)
  have adj: "lowest_adjust t a b = Inr ?t'"
    using len wide wipe set0 by (simp add: lowest_adjust_def Let_def)
  have lz: "length ?zs = nat ?L" by simp
  have bc: "bin_count ?t' = (\<lambda>j. if j = ?nm then count t else 0)"
  proof
    fix j
    show "bin_count ?t' j = (if j = ?nm then count t else 0)"
      using p(3) by (auto simp: bin_count_def store_length_def initialize_with_zeros_def nth_list_update)
  qed
  have fold: "fold_below (min_key t) ?nm (bin_count t) = (\<lambda>j. if j = ?nm then count t else 0)"
  proof
    fix j
    show "fold_below (min_key t) ?nm (bin_count t) j = (if j = ?nm then count t else 0)"
      using sum_window_count [OF pre wipe] p(9) wipe by (auto simp: fold_below_def)
  qed
  have sum: "sum_list ?zs = count t"
    using p(3) by (cases "nat ?L") (simp_all add: initialize_with_zeros_def sum_list_replicate)
  have ne: "?zs \<noteq> []" using p(3) by (simp add: initialize_with_zeros_def)
  have wf: "dense_wf ?t'"
    by (rule dense_wf_intro) (use p len wide bc sum ne in \<open>auto simp: store_length_def\<close>)
  have "adj_post t a b ?t'"
    using wf p wide bc fold lz len ne by (auto simp: adj_post_def lowest_inv_def store_length_def)
  then show ?thesis using adj by auto
qed

lemma lowest_adjust_shift_right:
  assumes pre: "adj_pre t a b" and len: "store_length t = bin_limit t"
    and wide: "bin_limit t < b - a + 1" and nw: "b - bin_limit t + 1 < max_key t"
    and sh: "b - bin_limit t + 1 \<le> offset t"
  shows "\<exists>t'. lowest_adjust t a b = Inr t' \<and> adj_post t a b t'"
proof -
  note p = adj_pre_facts [OF pre]
  define nm where "nm = b - bin_limit t + 1"
  let ?t1 = "t\<lparr>min_key := nm\<rparr>"
  have abs: "\<bar>offset t - nm\<bar> \<le> store_length ?t1"
    using p sh len by (simp add: nm_def)
  obtain bs where bs: "shift_bins ?t1 (offset t - nm) = Inr (?t1\<lparr>bins := bs, offset := nm\<rparr>)"
      "length bs = length (bins t)"
      "\<forall>k. bin_count (?t1\<lparr>bins := bs, offset := nm\<rparr>) k =
           (if nm \<le> k \<and> k < nm + store_length t then bin_count t k else 0)"
    using shift_bins_Inr [OF abs] by auto
  let ?r = "?t1\<lparr>bins := bs, offset := nm\<rparr>"
  let ?t' = "?r\<lparr>max_key := b, is_collapsed := True\<rparr>"
  have adj: "lowest_adjust t a b = Inr ?t'"
    using len wide nw sh bs(1) by (simp add: lowest_adjust_def Let_def nm_def)
  have bcr: "bin_count ?r = bin_count t"
  proof
    fix k
    show "bin_count ?r k = bin_count t k"
      using bs(3) p(9) [rule_format, of k] sh p(6,8,12) len
      by (cases "bin_count t k = 0") (auto simp: nm_def)
  qed
  have bc: "bin_count ?t' = bin_count t"
    using bcr by simp
  have sum: "sum_list bs = sum_list (bins t)"
    using sum_list_bins_cong [OF bcr] by simp
  have lo: "nm \<le> min_key t" "a < nm" using sh p(6) wide by (simp_all add: nm_def)
  have wf: "dense_wf ?t'"
    by (rule dense_wf_intro) (use p len bc sum lo bs(2) nw in \<open>auto simp: store_length_def nm_def\<close>)
  have fold: "fold_below (min_key t) nm (bin_count t) = bin_count t"
    by (rule fold_below_id) (use p(9) lo in auto)
  have "adj_post t a b ?t'"
    using wf p wide bc fold bs(2) len lo by (auto simp: adj_post_def lowest_inv_def store_length_def nm_def)
  then show ?thesis using adj by auto
qed

lemma replace_zeros_nth:
  assumes "p \<le> q" "q \<le> length xs" "i < length xs"
  shows "(take p xs @ replicate (q - p) 0 @ drop q xs) ! i = (if p \<le> i \<and> i < q then 0 else xs ! i)"
  using assms by (auto simp: nth_append min_def)

lemma sum_take_drop_diff:
  fixes xs :: "real list"
  assumes "p \<le> q"
  shows "sum_list (take (q - p) (drop p xs)) = sum_list (take q xs) - sum_list (take p xs)"
proof -
  have "take q xs = take p xs @ take (q - p) (drop p xs)"
    using assms by (metis le_add_diff_inverse take_add)
  then show ?thesis by simp
qed

lemma fold_below_bin_count:
  assumes pre: "adj_pre t a b" and lo: "offset t < nm" "min_key t < nm" "nm < offset t + store_length t"
  shows "sum (bin_count t) {min_key t..nm} =
         bin_count t nm + (sum_list (take (nat (nm - offset t)) (bins t)) - sum_list (take (nat (min_key t - offset t)) (bins t)))"
proof -
  note p = adj_pre_facts [OF pre]
  let ?F = "bin_count t" and ?o = "offset t"
  have z: "sum ?F {?o..<min_key t} = 0"
    by (rule sum.neutral) (use p(9) in force)
  have st: "sum_list (take (nat (min_key t - ?o)) (bins t)) = sum ?F {?o..<min_key t}"
    using sum_list_take_bins [of "nat (min_key t - ?o)" t] p(6,7,8) by (simp add: store_length_def)
  have en: "sum_list (take (nat (nm - ?o)) (bins t)) = sum ?F {?o..<nm}"
    using sum_list_take_bins [of "nat (nm - ?o)" t] lo by (simp add: store_length_def)
  have "sum ?F {min_key t..nm} = sum ?F {?o..nm}"
    by (rule sum.mono_neutral_left) (use p(6,9) in force)+
  also have "{?o..nm} = insert nm {?o..<nm}" using lo by auto
  also have "sum ?F (insert nm {?o..<nm}) = ?F nm + sum ?F {?o..<nm}" by simp
  finally show ?thesis using z st en by simp
qed

lemma lowest_adjust_fold:
  assumes pre: "adj_pre t a b" and len: "store_length t = bin_limit t"
    and wide: "bin_limit t < b - a + 1" and nw: "b - bin_limit t + 1 < max_key t"
    and sh: "offset t < b - bin_limit t + 1" and right: "a = min_key t"
  shows "\<exists>t'. lowest_adjust t a b = Inr t' \<and> adj_post t a b t'"
proof -
  note p = adj_pre_facts [OF pre]
  define nm where "nm = b - bin_limit t + 1"
  let ?o = "offset t" and ?m = "min_key t" and ?xs = "bins t" and ?F = "bin_count t"
  have mn: "?m < nm" "?o < nm" "nm < ?o + store_length t" "nm < max_key t"
    using wide right sh nw p(8) by (simp_all add: nm_def)
  define i where "i = nat (?m - ?o)"
  define j where "j = nat (nm - ?o)"
  have ij: "i < j" "j < length ?xs" "int i = ?m - ?o" "int j = nm - ?o"
    using mn p(6) by (simp_all add: i_def j_def store_length_def)
  define cc where "cc = sum_list (take (j - i) (drop i ?xs))"
  define b1 where "b1 = take i ?xs @ replicate (j - i) 0 @ drop j ?xs"
  have lb1: "length b1 = length ?xs" using ij by (simp add: b1_def)
  define b2 where "b2 = b1[j := b1 ! j + cc]"
  have cnt: "collapsed_count ?xs (?m - ?o) (nm - ?o) = Inr cc"
    using ij by (simp add: collapsed_count_Inr cc_def flip: ij(3,4))
  have d0: "int (j - i) = nm - ?m" using ij(1,3,4) by (simp add: of_nat_diff)
  have d: "nat (nm - ?m) = j - i" by (metis d0 nat_int)
  have rep: "replace_range_with_zeros ?xs (?m - ?o) (nm - ?o) (nat (nm - ?m)) = Inr b1"
    using ij by (simp add: replace_range_with_zeros_def b1_def d flip: ij(3,4))
  have add: "bl_add b1 (nm - ?o) cc = Inr b2"
    using lb1 ij by (simp add: bl_add_Inr b2_def flip: ij(4))
  let ?t2 = "t\<lparr>bins := b2, min_key := nm\<rparr>"
  have l2: "store_length ?t2 = store_length t" using lb1 by (simp add: b2_def store_length_def)
  have abs: "\<bar>?o - nm\<bar> \<le> store_length ?t2" using mn l2 by simp
  obtain bs where bs: "shift_bins ?t2 (?o - nm) = Inr (?t2\<lparr>bins := bs, offset := nm\<rparr>)"
      "length bs = length b2"
      "\<forall>k. bin_count (?t2\<lparr>bins := bs, offset := nm\<rparr>) k =
           (if nm \<le> k \<and> k < nm + store_length t then bin_count ?t2 k else 0)"
    using shift_bins_Inr [OF abs] l2 by auto
  let ?t' = "?t2\<lparr>bins := bs, offset := nm, max_key := b, is_collapsed := True\<rparr>"
  have adj: "lowest_adjust t a b = Inr ?t'"
    using len wide mn cnt rep add bs(1) by (simp add: lowest_adjust_def Let_def flip: nm_def)
  have bc2: "bin_count ?t2 k = ?F k + (if k = nm then cc else 0)" if "nm \<le> k" for k
  proof (cases "k < ?o + store_length t")
    case True
    define ix where "ix = nat (k - ?o)"
    have ko: "?o \<le> k" using that mn by simp
    have ix: "j \<le> ix" "ix < length ?xs"
      using that True mn ij by (auto simp: ix_def store_length_def)
    have ix3: "ix = j \<longleftrightarrow> k = nm"
      unfolding ix_def j_def using ko mn(2) by (simp add: eq_nat_nat_iff)
    have "b2 ! ix = ?xs ! ix + (if k = nm then cc else 0)"
      using ix ix3 ij lb1 replace_zeros_nth [of i j ?xs ix] by (auto simp: b2_def b1_def)
    then show ?thesis
      using True that mn ix(2) l2 by (simp add: bin_count_def store_length_def ix_def b2_def lb1)
  next
    case False
    then show ?thesis using mn l2 by (auto simp: bin_count_def store_length_def b2_def lb1)
  qed
  have "sum ?F {?m..nm} = ?F nm + (sum_list (take j ?xs) - sum_list (take i ?xs))"
    using fold_below_bin_count [OF pre mn(2,1,3)] by (simp only: i_def j_def)
  then have cc: "sum ?F {?m..nm} = ?F nm + cc"
    using sum_take_drop_diff [of i j ?xs] ij(1) by (simp add: cc_def)
  have bt: "bin_count ?t' = bin_count (?t2\<lparr>bins := bs, offset := nm\<rparr>)"
    by (simp add: bin_count_def fun_eq_iff)
  have hi: "?F k = 0" if "nm + store_length t \<le> k" for k
    using that p(9) [rule_format, of k] len p(12) by (force simp: nm_def)
  have lp: "0 < store_length t" using mn by linarith
  have bc: "bin_count ?t' = fold_below ?m nm ?F"
  proof
    fix k
    consider "k < nm" | "k = nm" | "nm < k" "k < nm + store_length t" | "nm + store_length t \<le> k"
      by linarith
    then show "bin_count ?t' k = fold_below ?m nm ?F k"
    proof cases
      case 1
      then show ?thesis using bs(3) bt by (simp add: fold_below_def)
    next
      case 2
      then show ?thesis using bs(3) bt bc2 [of k] cc mn(3) lp by (simp add: fold_below_def)
    next
      case 3
      then show ?thesis using bs(3) bt bc2 [of k] by (simp add: fold_below_def)
    next
      case 4
      then show ?thesis using bs(3) bt hi [of k] mn by (simp add: fold_below_def)
    qed
  qed
  let ?K = "{?o..<?o + store_length t} \<union> {nm..<nm + store_length t}"
  have lt': "store_length ?t' = store_length t" using bs(2) l2 by (simp add: store_length_def)
  have "sum_list bs = sum (bin_count ?t') ?K"
    using sum_list_bins_superset [of ?K ?t'] lt' by auto
  also have "\<dots> = sum ?F ?K"
    unfolding bc by (rule sum_fold_below) (use mn p(6,9) in \<open>auto simp: bin_count_def\<close>)
  also have "\<dots> = count t"
    using sum_list_bins_superset [of ?K t] p(2) by auto
  finally have sum: "sum_list bs = count t" .
  have supp: "\<forall>k. bin_count ?t' k \<noteq> 0 \<longrightarrow> nm \<le> k \<and> k \<le> b"
    using p(9,12) mn(4) unfolding bc by (auto simp: fold_below_def split: if_splits)
  have ne: "bs \<noteq> []" using bs(2) lb1 p(5) by (auto simp: b2_def)
  have wf: "dense_wf ?t'"
    by (rule dense_wf_intro) (use p lt' sum supp ne mn len in \<open>auto simp: store_length_def nm_def\<close>)
  have "adj_post t a b ?t'"
    using wf p wide bc len lt' mn right by (auto simp: adj_post_def lowest_inv_def nm_def)
  then show ?thesis using adj by auto
qed


lemma lowest_adjust_post:
  assumes pre: "adj_pre t a b" and len: "b - a + 1 \<le> store_length t \<or> store_length t = bin_limit t"
    and low: "a < min_key t \<Longrightarrow> b = max_key t"
  shows "\<exists>t'. lowest_adjust t a b = Inr t' \<and> adj_post t a b t'"
proof (cases "b - a + 1 \<le> store_length t")
  case True
  then show ?thesis using lowest_adjust_center [OF pre] by blast
next
  case False
  note p = adj_pre_facts [OF pre]
  have L: "store_length t = bin_limit t" using len False by simp
  have wide: "bin_limit t < b - a + 1" using L False by simp
  show ?thesis
  proof (cases "max_key t \<le> b - bin_limit t + 1")
    case True
    then show ?thesis using lowest_adjust_wipe [OF pre L wide] by blast
  next
    case nw: False
    show ?thesis
    proof (cases "b - bin_limit t + 1 \<le> offset t")
      case True
      then show ?thesis using lowest_adjust_shift_right [OF pre L wide] nw by simp
    next
      case False
      have "a = min_key t"
      proof (rule ccontr)
        assume "a \<noteq> min_key t"
        then have "b = max_key t" using low p(11) by simp
        then show False using False L p(8) by simp
      qed
      then show ?thesis using lowest_adjust_fold [OF pre L wide] nw False by simp
    qed
  qed
qed

section \<open>extend_range, get_index and add\<close>

lemma collapsing_grow_length:
  assumes c: "0 < chunk_size s" and le: "store_length s \<le> bin_limit s"
    and s1: "s1 = (if store_length s < collapsing_get_new_length s a b
                   then s\<lparr>bins := extend_back_with_zeros (bins s) (nat (collapsing_get_new_length s a b - store_length s))\<rparr>
                   else s)"
  shows "store_length s \<le> store_length s1" "store_length s1 \<le> bin_limit s"
    "b - a + 1 \<le> store_length s1 \<or> store_length s1 = bin_limit s"
proof -
  let ?nl = "collapsing_get_new_length s a b"
  have nl: "?nl = min (chunk_size s * \<lceil>real_of_int (b - a + 1) / real_of_int (chunk_size s)\<rceil>) (bin_limit s)"
    by (simp add: collapsing_get_new_length_def Let_def)
  have ge: "b - a + 1 \<le> chunk_size s * \<lceil>real_of_int (b - a + 1) / real_of_int (chunk_size s)\<rceil>"
    using ceiling_quotient_ge [OF c] .
  have l1: "store_length s1 = max (store_length s) ?nl"
    using s1 by (auto simp: store_length_def extend_back_with_zeros_def)
  show "store_length s \<le> store_length s1" "store_length s1 \<le> bin_limit s"
    using l1 nl le by simp_all
  show "b - a + 1 \<le> store_length s1 \<or> store_length s1 = bin_limit s"
    using l1 nl le ge by linarith
qed

lemma adj_post_cong:
  assumes "adj_post t a b t'" "bin_limit u = bin_limit t" "chunk_size u = chunk_size t" "count u = count t"
    "min_key u = min_key t" "bin_count u = bin_count t" "is_collapsed u = is_collapsed t"
  shows "adj_post u a b t'"
  using assms by (simp add: adj_post_def)

lemma lowest_extend_post:
  assumes inv: "lowest_inv s" "bins s \<noteq> []" and k: "int64_min \<le> key" "key \<le> int64_max"
    and out: "key < min_key s \<or> max_key s < key" and col: "is_collapsed s \<Longrightarrow> max_key s < key"
  shows "\<exists>s'. lowest_extend_range s key key = Inr s' \<and>
           adj_post s (min key (min_key s)) (max key (max_key s)) s'"
proof -
  define a where "a = min key (min_key s)"
  define b where "b = max key (max_key s)"
  note w = lowest_inv_window [OF inv]
  have wf: "dense_wf s" using inv(1) by (simp add: lowest_inv_def)
  have c: "0 < chunk_size s" "count s = sum_list (bins s)" "int64_min \<le> min_key s" "max_key s \<le> int64_max"
    using wf by (simp_all add: dense_wf_def)
  have supp: "\<forall>k. bin_count s k \<noteq> 0 \<longrightarrow> min_key s \<le> k \<and> k \<le> max_key s"
    using wf_support [OF wf] by blast
  have nm: "min key (min key (min_key s)) = a" "max key (max key (max_key s)) = b"
    by (simp_all add: a_def b_def)
  have ab: "a \<le> min_key s" "max_key s \<le> b" "int64_min \<le> a" "b \<le> int64_max"
    using k c by (auto simp: a_def b_def)
  have abc: "a = min_key s \<and> b = key" if "is_collapsed s"
    using col [OF that] w by (auto simp: a_def b_def)
  have ne: "\<not> is_empty s" using inv(2) by (simp add: is_empty_def store_length_def)
  have cinv: "is_collapsed s \<Longrightarrow> offset s = min_key s \<and> min_key s = max_key s - bin_limit s + 1"
    using inv(1) by (simp add: lowest_inv_def)
  have "\<exists>s'. lowest_extend_range s key key = Inr s' \<and> adj_post s a b s'"
  proof (cases "min_key s \<le> a \<and> b < offset s + store_length s")
    case True
    let ?s' = "s\<lparr>min_key := a, max_key := b\<rparr>"
    have ext: "lowest_extend_range s key key = Inr ?s'"
      unfolding lowest_extend_range_def extend_range_def Let_def nm using True ne by simp
    have hi: "max_key s < key" "a = min_key s" "b = key" using True out by (auto simp: a_def b_def)
    have nc: "\<not> is_collapsed s" using cinv hi True w(6) by fastforce
    have wf': "dense_wf ?s'"
      by (rule dense_wf_intro) (use c w inv(2) supp True hi k in auto)
    have fold: "fold_below (min_key s) (b - bin_limit s + 1) (bin_count s) = bin_count s"
      by (rule fold_below_id) (use supp True w(1,6) in force)+
    have "adj_post s a b ?s'"
      using wf' w True hi nc fold c inv(2) by (auto simp: adj_post_def lowest_inv_def)
    then show ?thesis using ext by blast
  next
    case False
    define nl where "nl = collapsing_get_new_length s a b"
    define s1 where "s1 = (if store_length s < nl
                   then s\<lparr>bins := extend_back_with_zeros (bins s) (nat (nl - store_length s))\<rparr> else s)"
    have ext: "lowest_extend_range s key key = lowest_adjust s1 a b"
      unfolding lowest_extend_range_def extend_range_def Let_def nm using False ne by (auto simp: s1_def nl_def)
    have g: "store_length s \<le> store_length s1" "store_length s1 \<le> bin_limit s"
      "b - a + 1 \<le> store_length s1 \<or> store_length s1 = bin_limit s"
      using collapsing_grow_length [OF c(1) w(6) s1_def [unfolded nl_def]] by simp_all
    have f1: "bin_count s1 = bin_count s" "bin_limit s1 = bin_limit s" "chunk_size s1 = chunk_size s"
      "count s1 = count s" "min_key s1 = min_key s" "max_key s1 = max_key s" "offset s1 = offset s"
      "is_collapsed s1 = is_collapsed s" "sum_list (bins s1) = sum_list (bins s)" "bins s1 \<noteq> []"
      using inv(2) by (simp_all add: s1_def) (simp_all add: extend_back_with_zeros_def sum_list_replicate)
    have pre: "adj_pre s1 a b"
      using f1 g c w supp cinv col ab abc by (auto simp: adj_pre_def)
    have low: "b = max_key s1" if "a < min_key s1"
      using that f1 out w(2) by (auto simp: a_def b_def)
    obtain t' where t': "lowest_adjust s1 a b = Inr t'" "adj_post s1 a b t'"
      using lowest_adjust_post [OF pre _ low] g(3) f1(2) by auto
    have "adj_post s a b t'"
      by (rule adj_post_cong [OF t'(2)]) (simp_all add: f1)
    then show ?thesis using ext t'(1) by auto
  qed
  then show ?thesis by (simp only: a_def b_def)
qed

lemma adj_post_facts:
  assumes "adj_post t a b t'"
  shows "lowest_inv t'" "bins t' \<noteq> []" "bin_limit t' = bin_limit t" "chunk_size t' = chunk_size t"
    "count t' = count t" "max_key t' = b" "min_key t' = max a (b - bin_limit t + 1)"
    "bin_count t' = fold_below (min_key t) (b - bin_limit t + 1) (bin_count t)"
    "is_collapsed t' \<longleftrightarrow> is_collapsed t \<or> bin_limit t < b - a + 1"
  using assms by (simp_all add: adj_post_def)

lemma adj_post_refl:
  assumes inv: "lowest_inv s" "bins s \<noteq> []" and a: "a \<le> min_key s" "min_key s = max a (max_key s - bin_limit s + 1)"
    and c: "is_collapsed s \<or> \<not> bin_limit s < max_key s - a + 1"
  shows "adj_post s a (max_key s) s"
proof -
  note w = lowest_inv_window [OF inv]
  have "fold_below (min_key s) (max_key s - bin_limit s + 1) (bin_count s) = bin_count s"
    by (rule fold_below_id) (use wf_support inv(1) w(4) in \<open>auto simp: lowest_inv_def\<close>)
  then show ?thesis using inv a c by (auto simp: adj_post_def)
qed

lemma lowest_get_index_post:
  assumes inv: "lowest_inv s" "bins s \<noteq> []" and k: "int64_min \<le> key" "key \<le> int64_max"
  defines "lo \<equiv> max key (max_key s) - bin_limit s + 1"
  shows "\<exists>s1. lowest_get_index s key = Inr (s1, max key lo - offset s1) \<and>
           adj_post s (min key (min_key s)) (max key (max_key s)) s1 \<and>
           min_key s1 \<le> max key lo \<and> max key lo \<le> max_key s1"
proof -
  note w = lowest_inv_window [OF inv]
  have cinv: "is_collapsed s \<Longrightarrow> offset s = min_key s \<and> min_key s = max_key s - bin_limit s + 1"
    using inv(1) by (simp add: lowest_inv_def)
  consider (low_c) "key < min_key s" "is_collapsed s" | (low) "key < min_key s" "\<not> is_collapsed s"
    | (high) "max_key s < key" | (mid) "min_key s \<le> key" "key \<le> max_key s"
    by linarith
  then show ?thesis
  proof cases
    case low_c
    have e: "max key lo = min_key s" "min key (min_key s) = key" "max key (max_key s) = max_key s"
      using low_c cinv w(2) by (auto simp: lo_def)
    have "adj_post s key (max_key s) s"
      by (rule adj_post_refl [OF inv]) (use low_c cinv in auto)
    moreover have "lowest_get_index s key = Inr (s, max key lo - offset s)"
      using low_c e cinv by (simp add: lowest_get_index_def)
    ultimately show ?thesis using e w by (auto simp: lo_def)
  next
    case low
    have e: "min key (min_key s) = key" "max key (max_key s) = max_key s"
      using low w(2) by auto
    obtain s1 where s1: "lowest_extend_range s key key = Inr s1" "adj_post s key (max_key s) s1"
      using lowest_extend_post [OF inv k] low e by force
    note f = adj_post_facts [OF s1(2)]
    show ?thesis
    proof (cases "is_collapsed s1")
      case True
      have o: "offset s1 = min_key s1" using f(1) True by (simp add: lowest_inv_def)
      have "max key lo = min_key s1" using f(7) by (simp add: lo_def e)
      then show ?thesis using s1 low True o f(6) f(1) lowest_inv_window [OF f(1,2)] e
        by (simp add: lowest_get_index_def)
    next
      case False
      have "\<not> bin_limit s < max_key s - key + 1" using False f(9) by simp
      then have "max key lo = key" "min_key s1 = key" using f(7) by (simp_all add: lo_def e)
      then show ?thesis using s1 low False f(6) w(2) e by (simp add: lowest_get_index_def)
    qed
  next
    case high
    have e: "min key (min_key s) = min_key s" "max key (max_key s) = key" "max key lo = key"
      using high w(2,5) by (auto simp: lo_def)
    obtain s1 where s1: "lowest_extend_range s key key = Inr s1" "adj_post s (min_key s) key s1"
      using lowest_extend_post [OF inv k] high cinv e by force
    note f = adj_post_facts [OF s1(2)]
    show ?thesis using s1 high f(6,7) w(2,5) e by (simp add: lowest_get_index_def)
  next
    case mid
    have e: "min key (min_key s) = min_key s" "max key (max_key s) = max_key s" "max key lo = key"
      using mid w(4) by (auto simp: lo_def)
    have "adj_post s (min_key s) (max_key s) s"
      by (rule adj_post_refl [OF inv]) (use w(4) in auto)
    then show ?thesis using mid e by (simp add: lowest_get_index_def)
  qed
qed

lemma lowest_inv_add_at:
  assumes inv: "lowest_inv s" and k: "min_key s \<le> k" "k \<le> max_key s"
  shows "\<exists>b. bl_add (bins s) (k - offset s) w = Inr b \<and> lowest_inv (s\<lparr>bins := b, count := count s + w\<rparr>)
    \<and> b \<noteq> [] \<and> bin_count (s\<lparr>bins := b, count := count s + w\<rparr>) = abs_add (bin_count s) k w"
proof -
  have wf: "dense_wf s" using inv by (simp add: lowest_inv_def)
  obtain b where b: "bl_add (bins s) (k - offset s) w = Inr b"
      "dense_wf (s\<lparr>bins := b, count := count s + w\<rparr>)"
      "bin_count (s\<lparr>bins := b, count := count s + w\<rparr>) = (bin_count s)(k := bin_count s k + w)"
    using wf_add_at [OF wf k] by blast
  have ne: "bins s \<noteq> []" using wf_nonempty [OF wf k] .
  note win = wf_window [OF wf ne]
  have "b = (bins s)[nat (k - offset s) := bins s ! nat (k - offset s) + w]"
    using b(1) bl_add_Inr [of "k - offset s" "bins s" w] win k by (simp add: store_length_def)
  then have l: "length b = length (bins s)" by simp
  have "lowest_inv (s\<lparr>bins := b, count := count s + w\<rparr>)"
    using inv b(2) l by (simp add: lowest_inv_def store_length_def)
  then show ?thesis using b(1,3) l ne by (auto simp: abs_add_def)
qed

lemma lowest_add_step:
  assumes inv: "lowest_inv s" "bins s \<noteq> []" and k: "int64_min \<le> key" "key \<le> int64_max"
  defines "lo \<equiv> max key (max_key s) - bin_limit s + 1"
  shows "\<exists>s'. lowest_add s key w = Inr s' \<and> lowest_inv s' \<and> bins s' \<noteq> [] \<and>
           bin_limit s' = bin_limit s \<and> chunk_size s' = chunk_size s \<and> count s' = count s + w \<and>
           max_key s' = max key (max_key s) \<and>
           bin_count s' = abs_add (fold_below (min_key s) lo (bin_count s)) (max key lo) w"
proof -
  obtain s1 where s1: "lowest_get_index s key = Inr (s1, max key lo - offset s1)"
      "adj_post s (min key (min_key s)) (max key (max_key s)) s1"
      "min_key s1 \<le> max key lo" "max key lo \<le> max_key s1"
    using lowest_get_index_post [OF inv k] unfolding lo_def by blast
  note f = adj_post_facts [OF s1(2)]
  obtain b where b: "bl_add (bins s1) (max key lo - offset s1) w = Inr b"
      "lowest_inv (s1\<lparr>bins := b, count := count s1 + w\<rparr>)" "b \<noteq> []"
      "bin_count (s1\<lparr>bins := b, count := count s1 + w\<rparr>) = abs_add (bin_count s1) (max key lo) w"
    using lowest_inv_add_at [OF f(1) s1(3,4)] by blast
  have "lowest_add s key w = Inr (s1\<lparr>bins := b, count := count s1 + w\<rparr>)"
    using s1(1) b(1) by (simp add: lowest_add_def store_add_def)
  then show ?thesis using b f unfolding lo_def by auto
qed

section \<open>Clamped counts and runs of adds\<close>

lemma clamp_count_Nil [simp]: "clamp_count lo [] = (\<lambda>k. 0)"
  by (simp add: clamp_count_def fun_eq_iff)

lemma clamp_count_Cons:
  "clamp_count lo ((v, w) # kws) k = (if max v lo = k then w else 0) + clamp_count lo kws k"
  by (simp add: clamp_count_def)

lemma clamp_count_snoc:
  "clamp_count lo (kws @ [(v, w)]) = abs_add (clamp_count lo kws) (max v lo) w"
  by (simp add: clamp_count_def abs_add_def fun_eq_iff)

lemma sum_clamp_count:
  assumes "finite S" "S \<subseteq> {..lo'}" "lo \<le> lo'"
    and "\<forall>(v, w)\<in>set kws. max v lo \<le> lo' \<longrightarrow> max v lo \<in> S"
  shows "sum (clamp_count lo kws) S = clamp_count lo' kws lo'"
  using assms(4)
proof (induction kws)
  case Nil
  then show ?case by simp
next
  case (Cons vw kws)
  obtain v w where vw: "vw = (v, w)" by (cases vw)
  have "(max v lo \<in> S) = (max v lo' = lo')"
    using Cons.prems assms(2,3) vw by auto
  moreover have "sum (clamp_count lo (vw # kws)) S =
      sum (\<lambda>k. if max v lo = k then w else 0) S + sum (clamp_count lo kws) S"
    by (simp add: vw clamp_count_Cons sum.distrib)
  ultimately show ?case
    using Cons assms(1) vw by (simp add: clamp_count_Cons sum.delta)
qed

lemma fold_below_clamp:
  assumes supp: "\<forall>j. clamp_count lo kws j \<noteq> 0 \<longrightarrow> m \<le> j" and lo: "lo \<le> lo'"
  shows "fold_below m lo' (clamp_count lo kws) = clamp_count lo' kws"
proof
  fix j
  let ?g = "clamp_count lo kws"
  let ?S = "{m..lo'} \<union> ((\<lambda>(v, w). max v lo) ` set kws \<inter> {..lo'})"
  have fin: "finite ?S" by simp
  have "sum ?g {m..lo'} = sum ?g ?S"
    by (rule sum.mono_neutral_left) (use supp in auto)
  also have "\<dots> = clamp_count lo' kws lo'"
    by (rule sum_clamp_count) (use lo in auto)
  finally have at: "sum ?g {m..lo'} = clamp_count lo' kws lo'" .
  have "filter (\<lambda>(v, w). max v lo' = j) kws = filter (\<lambda>(v, w). max v lo = j) kws" if "lo' < j"
    by (rule filter_cong) (use that lo in auto)
  moreover have "filter (\<lambda>(v, w). max v lo' = j) kws = []" if "j < lo'"
    using that by (auto simp: filter_empty_conv)
  ultimately show "fold_below m lo' ?g j = clamp_count lo' kws j"
    using at by (auto simp: fold_below_def clamp_count_def)
qed

lemma lowest_add_all_clamp:
  assumes "lowest_inv s" "bins s \<noteq> []" "bin_count s = clamp_count (max_key s - bin_limit s + 1) hs"
    and "keys_in_range kws"
  shows "\<exists>s'. lowest_add_all s kws = Inr s' \<and> lowest_inv s' \<and> bins s' \<noteq> [] \<and>
           bin_limit s' = bin_limit s \<and> chunk_size s' = chunk_size s \<and>
           count s' = count s + sum_list (map snd kws) \<and> max_key s' = fold max (map fst kws) (max_key s) \<and>
           bin_count s' = clamp_count (max_key s' - bin_limit s + 1) (hs @ kws)"
  using assms
proof (induction kws arbitrary: s hs)
  case Nil
  then show ?case by simp
next
  case (Cons kw kws)
  obtain k w where kw: "kw = (k, w)" by (cases kw)
  have k: "int64_min \<le> k" "k \<le> int64_max" "keys_in_range kws"
    using Cons.prems(4) kw by (simp_all add: keys_in_range_def)
  define lo where "lo = max k (max_key s) - bin_limit s + 1"
  obtain s1 where s1: "lowest_add s k w = Inr s1" "lowest_inv s1" "bins s1 \<noteq> []"
      "bin_limit s1 = bin_limit s" "chunk_size s1 = chunk_size s" "count s1 = count s + w"
      "max_key s1 = max k (max_key s)"
      "bin_count s1 = abs_add (fold_below (min_key s) lo (bin_count s)) (max k lo) w"
    using lowest_add_step [OF Cons.prems(1,2) k(1,2), of w] unfolding lo_def by blast
  have wf: "dense_wf s" using Cons.prems(1) by (simp add: lowest_inv_def)
  have "fold_below (min_key s) lo (bin_count s) = clamp_count lo hs"
    unfolding Cons.prems(3) by (rule fold_below_clamp) (use wf_support [OF wf] Cons.prems(3) lo_def in auto)
  then have bc1: "bin_count s1 = clamp_count (max_key s1 - bin_limit s1 + 1) (hs @ [(k, w)])"
    using s1(4,7,8) by (simp add: clamp_count_snoc lo_def)
  obtain s' where s': "lowest_add_all s1 kws = Inr s'" "lowest_inv s'" "bins s' \<noteq> []"
      "bin_limit s' = bin_limit s1" "chunk_size s' = chunk_size s1"
      "count s' = count s1 + sum_list (map snd kws)" "max_key s' = fold max (map fst kws) (max_key s1)"
      "bin_count s' = clamp_count (max_key s' - bin_limit s1 + 1) ((hs @ [(k, w)]) @ kws)"
    using Cons.IH [OF s1(2,3) bc1 k(3)] by blast
  show ?case using s1 s' kw by simp
qed

section \<open>Collapse correctness\<close>

text \<open>
  C23. A run of \<open>add\<close> calls on a new collapsing-lowest store with positive
  \<open>bin_limit\<close> and \<open>chunk_size\<close>, with keys and limit in the range where the
  store's \<open>Index\<close> arithmetic does not overflow (\<open>collapse_safe\<close>), returns a store that keeps the
  invariant, holds at most \<open>bin_limit\<close> bins and the total weight, has the
  largest key as \<open>max_key_\<close>, and counts at each key \<open>k\<close> the weights of the
  added keys \<open>v\<close> with \<open>max v (max_key - bin_limit + 1) = k\<close>: keys below the
  window are collapsed into its lowest bin and nothing else is moved.
\<close>

theorem lowest_collapse_correct:
  assumes lim: "0 < limit" "0 < chunk" and kws: "kws \<noteq> []" and safe: "collapse_safe limit kws"
  shows "\<exists>s'. lowest_add_all (new_collapsing_store limit chunk) kws = Inr s' \<and> lowest_inv s' \<and>
           store_length s' \<le> limit \<and> count s' = sum_list (map snd kws) \<and> max_key s' = Max (fst ` set kws) \<and>
           bin_count s' = clamp_count (Max (fst ` set kws) - limit + 1) kws"
proof -
  obtain k w rest where kw: "kws = (k, w) # rest" using kws by (cases kws) auto
  have k: "int64_min \<le> k" "k \<le> int64_max" "keys_in_range rest"
    using collapse_safe_keys_in_range [OF safe] kw by (simp_all add: keys_in_range_def)
  obtain s1 where s1: "lowest_add (new_collapsing_store limit chunk) k w = Inr s1" "dense_wf s1"
      "bin_count s1 = (\<lambda>j. if j = k then w else 0)" "count s1 = w" "min_key s1 = k" "max_key s1 = k"
      "store_length s1 = min chunk limit" "bin_limit s1 = limit" "\<not> is_collapsed s1"
    using lowest_first_add_Inr [OF lim k(1,2), of w] by blast
  have inv1: "lowest_inv s1" using s1 lim by (simp add: lowest_inv_def)
  have ne1: "bins s1 \<noteq> []" using s1(7) lim by (auto simp: store_length_def)
  have bc1: "bin_count s1 = clamp_count (max_key s1 - bin_limit s1 + 1) [(k, w)]"
    using s1(3,6,8) lim by (auto simp: clamp_count_def fun_eq_iff)
  obtain s' where s': "lowest_add_all s1 rest = Inr s'" "lowest_inv s'" "bin_limit s' = limit"
      "count s' = w + sum_list (map snd rest)" "max_key s' = fold max (map fst rest) k"
      "bin_count s' = clamp_count (max_key s' - limit + 1) ([(k, w)] @ rest)"
    using lowest_add_all_clamp [OF inv1 ne1 bc1 k(3)] s1(4,6,8) by auto
  have mx: "Max (fst ` set kws) = fold max (map fst rest) k"
    using Max.set_eq_fold [of k "map fst rest"] kw by simp
  have "store_length s' \<le> limit" using s'(2,3) by (simp add: lowest_inv_def)
  then show ?thesis using s1(1) s' kw mx by simp
qed

theorem lowest_collapse_correct_witness:
  "\<exists>s'. lowest_add_all (new_collapsing_store 4 2) [(10, 1), (13, 1), (5, 5), (6, 7)] = Inr s' \<and>
     store_length s' \<le> 4 \<and> count s' = 14 \<and> max_key s' = 13 \<and>
     bin_count s' 10 = 13 \<and> bin_count s' 13 = 1 \<and> bin_count s' 6 = 0"
proof -
  obtain s' where s': "lowest_add_all (new_collapsing_store 4 2) [(10, 1), (13, 1), (5, 5), (6, 7)] = Inr s'"
      "store_length s' \<le> 4" "count s' = 14" "max_key s' = 13"
      "bin_count s' = clamp_count 10 [(10, 1), (13, 1), (5, 5), (6, 7)]"
    using lowest_collapse_correct [of 4 2 "[(10, 1), (13, 1), (5, 5), (6, 7)]"]
    by (auto simp: collapse_safe_def simp del: lowest_add_all.simps)
  then show ?thesis by (auto simp: clamp_count_def simp del: lowest_add_all.simps)
qed

end
