(* ===== verification/HighestCollapse.thy ===== *)
theory HighestCollapse
  imports LowestCollapse
begin

text \<open>
  Collapse correctness of \<open>CollapsingHighestDenseStore\<close> (ddsketch.h), the mirror
  image of theory \<open>LowestCollapse\<close>, whose record-independent helpers it reuses.
  A run of \<open>add\<close> calls on a new store with a positive \<open>bin_limit\<close> ends in a store
  whose counters are those of the added keys, each key above
  \<open>min_key + bin_limit - 1\<close> moved down to that key (\<open>clamp_high_count\<close>).

  \<open>highest_inv\<close> is the store's invariant. Once collapsed, the window is
  \<open>[min_key_, min_key_ + bin_limit - 1]\<close> and fills all \<open>bin_limit\<close> bins, which is what
  lets \<open>get_index\<close> send a key above the window to the last bin. \<open>hadj_pre\<close> and
  \<open>hadj_post\<close> are the contract of \<open>adjust\<close>: the counters above the new upper end
  are summed into it (\<open>fold_above\<close>). The four branches of \<open>adjust\<close> (centre,
  wipe, shift left, collapse and shift right) are one lemma each.
\<close>

section \<open>Invariant, contract of adjust and the clamped counts\<close>

definition highest_inv :: "'a collapsing_store_scheme \<Rightarrow> bool" where
  "highest_inv s \<longleftrightarrow> dense_wf s \<and> 0 < bin_limit s \<and> store_length s \<le> bin_limit s \<and>
     (is_collapsed s \<longrightarrow> offset s = min_key s \<and> max_key s = min_key s + bin_limit s - 1 \<and>
        store_length s = bin_limit s)"

definition fold_above :: "index \<Rightarrow> index \<Rightarrow> (index \<Rightarrow> real) \<Rightarrow> index \<Rightarrow> real" where
  "fold_above hi_to hi f j = (if hi < j then 0 else if j = hi then sum f {hi..hi_to} else f j)"

definition clamp_high_count :: "index \<Rightarrow> (index \<times> real) list \<Rightarrow> index \<Rightarrow> real" where
  "clamp_high_count hi kws k = sum_list (map snd (filter (\<lambda>(v, w). min v hi = k) kws))"

definition hadj_pre :: "'a collapsing_store_scheme \<Rightarrow> index \<Rightarrow> index \<Rightarrow> bool" where
  "hadj_pre t a b \<longleftrightarrow> 0 < chunk_size t \<and> count t = sum_list (bins t) \<and> 0 < bin_limit t \<and>
     store_length t \<le> bin_limit t \<and> bins t \<noteq> [] \<and>
     offset t \<le> min_key t \<and> min_key t \<le> max_key t \<and> max_key t < offset t + store_length t \<and>
     (\<forall>k. bin_count t k \<noteq> 0 \<longrightarrow> min_key t \<le> k \<and> k \<le> max_key t) \<and>
     int64_min \<le> a \<and> a \<le> min_key t \<and> max_key t \<le> b \<and> b \<le> int64_max \<and>
     (is_collapsed t \<longrightarrow> offset t = min_key t \<and> max_key t = min_key t + bin_limit t - 1 \<and>
        store_length t = bin_limit t \<and> b = max_key t \<and> a < min_key t)"

definition hadj_post :: "'a collapsing_store_scheme \<Rightarrow> index \<Rightarrow> index \<Rightarrow> 'a collapsing_store_scheme \<Rightarrow> bool" where
  "hadj_post t a b t' \<longleftrightarrow> highest_inv t' \<and> bins t' \<noteq> [] \<and> bin_limit t' = bin_limit t \<and>
     chunk_size t' = chunk_size t \<and> count t' = count t \<and> min_key t' = a \<and>
     max_key t' = min b (a + bin_limit t - 1) \<and>
     bin_count t' = fold_above (max_key t) (a + bin_limit t - 1) (bin_count t) \<and>
     (is_collapsed t' \<longleftrightarrow> is_collapsed t \<or> bin_limit t < b - a + 1)"

section \<open>Helpers\<close>

lemma fold_above_id:
  assumes "\<forall>j. f j \<noteq> 0 \<longrightarrow> j \<le> m" "m \<le> hi"
  shows "fold_above m hi f = f"
proof
  fix j
  show "fold_above m hi f j = f j"
  proof (cases "j = hi")
    case True
    then have "{hi..m} \<subseteq> {hi}" using assms(2) by auto
    moreover have "hi \<le> m \<Longrightarrow> {hi..m} = {hi}" using assms(2) by auto
    ultimately show ?thesis using True assms by (cases "hi \<le> m") (auto simp: fold_above_def)
  next
    case False
    then show ?thesis using assms by (auto simp: fold_above_def)
  qed
qed

lemma hadj_pre_facts:
  assumes "hadj_pre t a b"
  shows "0 < chunk_size t" "count t = sum_list (bins t)" "0 < bin_limit t" "store_length t \<le> bin_limit t"
    "bins t \<noteq> []" "offset t \<le> min_key t" "min_key t \<le> max_key t" "max_key t < offset t + store_length t"
    "\<forall>k. bin_count t k \<noteq> 0 \<longrightarrow> min_key t \<le> k \<and> k \<le> max_key t"
    "int64_min \<le> a" "a \<le> min_key t" "max_key t \<le> b" "b \<le> int64_max"
  using assms by (simp_all add: hadj_pre_def)

lemma sum_window_count_low:
  assumes p: "hadj_pre t a b" and lo: "l \<le> min_key t"
  shows "sum (bin_count t) {l..max_key t} = count t"
proof -
  note f = hadj_pre_facts [OF p]
  let ?K = "{l..max_key t} \<union> {offset t..<offset t + store_length t}"
  have "sum_list (bins t) = sum (bin_count t) ?K"
    by (rule sum_list_bins_superset) auto
  also have "\<dots> = sum (bin_count t) {l..max_key t}"
    by (rule sum.mono_neutral_right) (use f(9) lo in auto)
  finally show ?thesis using f(2) by simp
qed

section \<open>The branches of adjust\<close>

lemma highest_adjust_center:
  assumes pre: "hadj_pre t a b" and fits: "b - a + 1 \<le> store_length t"
  shows "\<exists>t'. highest_adjust t a b = Inr t' \<and> hadj_post t a b t'"
proof -
  note p = hadj_pre_facts [OF pre]
  have nc: "\<not> is_collapsed t"
    using pre fits p(4) by (auto simp: hadj_pre_def)
  have supp: "\<forall>k. bin_count t k \<noteq> 0 \<longrightarrow> a \<le> k \<and> k \<le> b"
    using p(9,11,12) by force
  have eq: "highest_adjust t a b = dense_adjust t a b"
    using fits by (simp add: highest_adjust_def dense_adjust_def)
  obtain bs o' where d: "dense_adjust t a b = Inr (t\<lparr>bins := bs, offset := o', min_key := a, max_key := b\<rparr>)"
      "length bs = length (bins t)" "o' \<le> a" "b < o' + store_length t"
      "bin_count (t\<lparr>bins := bs, offset := o'\<rparr>) = bin_count t"
    using dense_adjust_Inr [of a b t] p fits supp by auto
  let ?t' = "t\<lparr>bins := bs, offset := o', min_key := a, max_key := b\<rparr>"
  have bc: "bin_count ?t' = bin_count t"
    using d(5) by (metis bin_count_upd(1,2) dense_store.update_convs(2,3) dense_store.surjective)
  have sum: "sum_list bs = sum_list (bins t)"
    using sum_list_bins_cong [OF d(5)] by simp
  have len: "store_length ?t' = store_length t" using d(2) by (simp add: store_length_def)
  have wf: "dense_wf ?t'"
    by (rule dense_wf_intro) (use p d bc sum len supp in \<open>auto simp: store_length_def\<close>)
  have hi: "b \<le> a + bin_limit t - 1" using fits p(4) by simp
  have fold: "fold_above (max_key t) (a + bin_limit t - 1) (bin_count t) = bin_count t"
    by (rule fold_above_id) (use p(9,12) hi in auto)
  have "hadj_post t a b ?t'"
    using wf p len nc fold bc hi d(2) by (auto simp: hadj_post_def highest_inv_def store_length_def)
  then show ?thesis using eq d(1) by auto
qed

lemma highest_adjust_wipe:
  assumes pre: "hadj_pre t a b" and len: "store_length t = bin_limit t"
    and wide: "bin_limit t < b - a + 1" and wipe: "a + bin_limit t - 1 \<le> min_key t"
  shows "\<exists>t'. highest_adjust t a b = Inr t' \<and> hadj_post t a b t'"
proof -
  note p = hadj_pre_facts [OF pre]
  define nx where "nx = a + bin_limit t - 1"
  let ?L = "bin_limit t"
  let ?zs = "(initialize_with_zeros (nat ?L))[nat (?L - 1) := count t]"
  let ?t' = "t\<lparr>offset := a, max_key := nx, bins := ?zs, min_key := a, is_collapsed := True\<rparr>"
  have set0: "bl_set (initialize_with_zeros (nat ?L)) (?L - 1) (count t) = Inr ?zs"
    using p(3) by (simp add: bl_set_def initialize_with_zeros_def)
  have adj: "highest_adjust t a b = Inr ?t'"
    using len wide wipe set0 by (simp add: highest_adjust_def Let_def flip: nx_def)
  have lz: "length ?zs = nat ?L" by simp
  have bc: "bin_count ?t' = (\<lambda>j. if j = nx then count t else 0)"
  proof
    fix j
    show "bin_count ?t' j = (if j = nx then count t else 0)"
      using p(3) by (auto simp: bin_count_def store_length_def initialize_with_zeros_def nth_list_update nx_def)
  qed
  have fold: "fold_above (max_key t) nx (bin_count t) = (\<lambda>j. if j = nx then count t else 0)"
  proof
    fix j
    show "fold_above (max_key t) nx (bin_count t) j = (if j = nx then count t else 0)"
      using sum_window_count_low [OF pre wipe [folded nx_def]] p(9) wipe by (auto simp: fold_above_def nx_def)
  qed
  have ix: "nat (?L - 1) < length (initialize_with_zeros (nat ?L))"
    using p(3) by (simp add: initialize_with_zeros_def)
  have sum: "sum_list ?zs = count t"
    using sum_list_update_add [OF ix, of "count t"] ix by (simp add: initialize_with_zeros_def sum_list_replicate)
  have ne: "?zs \<noteq> []" using p(3) by (simp add: initialize_with_zeros_def)
  have wf: "dense_wf ?t'"
    by (rule dense_wf_intro) (use p len wide bc sum ne in \<open>auto simp: store_length_def nx_def\<close>)
  have "hadj_post t a b ?t'"
    using wf p wide bc fold lz len ne by (auto simp: hadj_post_def highest_inv_def store_length_def nx_def)
  then show ?thesis using adj by auto
qed

lemma highest_adjust_shift_left:
  assumes pre: "hadj_pre t a b" and len: "store_length t = bin_limit t"
    and wide: "bin_limit t < b - a + 1" and nw: "min_key t < a + bin_limit t - 1"
    and sh: "offset t \<le> a"
  shows "\<exists>t'. highest_adjust t a b = Inr t' \<and> hadj_post t a b t'"
proof -
  note p = hadj_pre_facts [OF pre]
  define nx where "nx = a + bin_limit t - 1"
  let ?t1 = "t\<lparr>max_key := nx\<rparr>"
  have abs: "\<bar>offset t - a\<bar> \<le> store_length ?t1"
    using p sh len by simp
  obtain bs where bs: "shift_bins ?t1 (offset t - a) = Inr (?t1\<lparr>bins := bs, offset := a\<rparr>)"
      "length bs = length (bins t)"
      "\<forall>k. bin_count (?t1\<lparr>bins := bs, offset := a\<rparr>) k =
           (if a \<le> k \<and> k < a + store_length t then bin_count t k else 0)"
    using shift_bins_Inr [OF abs] by auto
  let ?r = "?t1\<lparr>bins := bs, offset := a\<rparr>"
  let ?t' = "?r\<lparr>min_key := a, is_collapsed := True\<rparr>"
  have adj: "highest_adjust t a b = Inr ?t'"
    using len wide nw sh bs(1) by (simp add: highest_adjust_def Let_def flip: nx_def)
  have bcr: "bin_count ?r = bin_count t"
  proof
    fix k
    show "bin_count ?r k = bin_count t k"
      using bs(3) p(9) [rule_format, of k] sh p(8,11) len
      by (cases "bin_count t k = 0") auto
  qed
  have bc: "bin_count ?t' = bin_count t"
    using bcr by simp
  have sum: "sum_list bs = sum_list (bins t)"
    using sum_list_bins_cong [OF bcr] by simp
  have hi: "max_key t \<le> nx" "nx < b" using sh p(8) wide len by (simp_all add: nx_def)
  have wf: "dense_wf ?t'"
    by (rule dense_wf_intro) (use p len bc sum hi bs(2) nw in \<open>auto simp: store_length_def nx_def\<close>)
  have fold: "fold_above (max_key t) nx (bin_count t) = bin_count t"
    by (rule fold_above_id) (use p(9) hi in auto)
  have "hadj_post t a b ?t'"
    using wf p wide bc fold bs(2) len hi by (auto simp: hadj_post_def highest_inv_def store_length_def nx_def)
  then show ?thesis using adj by auto
qed

lemma sum_fold_above:
  assumes K: "finite K" "{hi..M} \<subseteq> K" and f: "\<forall>j. f j \<noteq> 0 \<longrightarrow> j \<in> K \<and> j \<le> M" and hi: "hi \<le> M"
  shows "sum (fold_above M hi f) K = sum f K"
proof -
  let ?K1 = "{j\<in>K. hi \<le> j}" and ?K2 = "{j\<in>K. j < hi}"
  have split: "K = ?K1 \<union> ?K2" "?K1 \<inter> ?K2 = {}" by auto
  have fin: "finite ?K1" "finite ?K2" using K(1) by simp_all
  have hik: "hi \<in> ?K1" using K(2) hi by auto
  have s2: "sum (fold_above M hi f) ?K2 = sum f ?K2"
    by (rule sum.cong) (auto simp: fold_above_def)
  have "sum (fold_above M hi f) ?K1 = fold_above M hi f hi + sum (fold_above M hi f) (?K1 - {hi})"
    using sum.remove [OF fin(1) hik] .
  also have "sum (fold_above M hi f) (?K1 - {hi}) = 0"
    by (rule sum.neutral) (auto simp: fold_above_def)
  finally have s1: "sum (fold_above M hi f) ?K1 = sum f {hi..M}"
    by (simp add: fold_above_def)
  have s1': "sum f ?K1 = sum f {hi..M}"
    by (rule sum.mono_neutral_right) (use fin K f in auto)
  have "sum (fold_above M hi f) K = sum (fold_above M hi f) ?K1 + sum (fold_above M hi f) ?K2"
    by (subst split(1)) (rule sum.union_disjoint [OF fin split(2)])
  also have "\<dots> = sum f ?K1 + sum f ?K2" using s1 s1' s2 by simp
  also have "\<dots> = sum f K"
    by (subst (2) split(1)) (rule sum.union_disjoint [OF fin split(2), symmetric])
  finally show ?thesis .
qed

lemma fold_above_bin_count:
  assumes pre: "hadj_pre t a b" and hi: "offset t \<le> nx" "nx < max_key t"
  shows "sum (bin_count t) {nx..max_key t} =
         bin_count t nx + (sum_list (take (nat (max_key t - offset t + 1)) (bins t))
                           - sum_list (take (nat (nx - offset t + 1)) (bins t)))"
proof -
  note p = hadj_pre_facts [OF pre]
  let ?F = "bin_count t" and ?o = "offset t" and ?M = "max_key t"
  have en: "sum_list (take (nat (?M - ?o + 1)) (bins t)) = sum ?F {?o..<?M + 1}"
    using sum_list_take_bins [of "nat (?M - ?o + 1)" t] hi p(8) by (simp add: store_length_def)
  have st: "sum_list (take (nat (nx - ?o + 1)) (bins t)) = sum ?F {?o..<nx + 1}"
    using sum_list_take_bins [of "nat (nx - ?o + 1)" t] hi p(8) by (simp add: store_length_def)
  have "{?o..<?M + 1} = {?o..<nx + 1} \<union> {nx + 1..?M}" using hi by auto
  then have "sum ?F {?o..<?M + 1} = sum ?F {?o..<nx + 1} + sum ?F {nx + 1..?M}"
    by (simp add: sum.union_disjoint ivl_disj_int)
  moreover have "{nx..?M} = insert nx {nx + 1..?M}" using hi by auto
  ultimately show ?thesis using en st by simp
qed

lemma highest_adjust_fold:
  assumes pre: "hadj_pre t a b" and len: "store_length t = bin_limit t"
    and wide: "bin_limit t < b - a + 1" and nw: "min_key t < a + bin_limit t - 1"
    and sh: "a < offset t" and right: "b = max_key t"
  shows "\<exists>t'. highest_adjust t a b = Inr t' \<and> hadj_post t a b t'"
proof -
  note p = hadj_pre_facts [OF pre]
  define nx where "nx = a + bin_limit t - 1"
  let ?o = "offset t" and ?M = "max_key t" and ?xs = "bins t" and ?F = "bin_count t"
  have mn: "min_key t < nx" "?o \<le> nx" "nx < ?M" "?M < ?o + store_length t" "a < min_key t"
    using wide right sh nw p(6,8) by (simp_all add: nx_def)
  define i where "i = nat (nx - ?o + 1)"
  define j where "j = nat (?M - ?o + 1)"
  have ij: "0 < i" "i < j" "j \<le> length ?xs" "int i = nx - ?o + 1" "int j = ?M - ?o + 1"
    using mn by (simp_all add: i_def j_def store_length_def)
  define cc where "cc = sum_list (take (j - i) (drop i ?xs))"
  define b1 where "b1 = take i ?xs @ replicate (j - i) 0 @ drop j ?xs"
  have lb1: "length b1 = length ?xs" using ij by (simp add: b1_def)
  define b2 where "b2 = b1[i - 1 := b1 ! (i - 1) + cc]"
  have cnt: "collapsed_count ?xs (nx - ?o + 1) (?M - ?o + 1) = Inr cc"
    using ij by (simp add: collapsed_count_Inr cc_def flip: ij(4,5))
  have d0: "int (j - i) = ?M - nx" using ij(2,4,5) by (simp add: of_nat_diff)
  have d: "nat (?M - nx) = j - i" by (metis d0 nat_int)
  have rep: "replace_range_with_zeros ?xs (nx - ?o + 1) (?M - ?o + 1) (nat (?M - nx)) = Inr b1"
    using ij by (simp add: replace_range_with_zeros_def b1_def d flip: ij(4,5))
  have i1: "int (i - 1) = nx - ?o" using ij(1,4) by simp
  have i2: "nx - ?o + 1 - 1 = int (i - 1)" using i1 by simp
  have add: "bl_add b1 (nx - ?o + 1 - 1) cc = Inr b2"
  proof -
    have n1: "nat (int i - 1) = i - 1" by (simp add: nat_diff_distrib)
    show ?thesis unfolding i2 using lb1 ij(1-3) by (simp add: bl_add_Inr b2_def n1)
  qed
  let ?t2 = "t\<lparr>bins := b2, max_key := nx\<rparr>"
  have l2: "store_length ?t2 = store_length t" using lb1 by (simp add: b2_def store_length_def)
  have abs: "\<bar>?o - a\<bar> \<le> store_length ?t2" using mn l2 sh len p(11) nw by (simp add: nx_def)
  obtain bs where bs: "shift_bins ?t2 (?o - a) = Inr (?t2\<lparr>bins := bs, offset := a\<rparr>)"
      "length bs = length b2"
      "\<forall>k. bin_count (?t2\<lparr>bins := bs, offset := a\<rparr>) k =
           (if a \<le> k \<and> k < a + store_length t then bin_count ?t2 k else 0)"
    using shift_bins_Inr [OF abs] l2 by auto
  let ?t' = "?t2\<lparr>bins := bs, offset := a, min_key := a, is_collapsed := True\<rparr>"
  have adj: "highest_adjust t a b = Inr ?t'"
    using len wide mn sh cnt rep add bs(1) by (simp add: highest_adjust_def Let_def flip: nx_def)
  have Fz: "?F k = 0" if "k < min_key t \<or> ?M < k" for k
    using that p(9) by force
  have bc2: "bin_count ?t2 k = (if nx < k then 0 else ?F k + (if k = nx then cc else 0))" for k
  proof (cases "?o \<le> k \<and> k < ?o + store_length t")
    case True
    define ix where "ix = nat (k - ?o)"
    have ix: "ix < length ?xs" "int ix = k - ?o"
      using True by (simp_all add: ix_def store_length_def nat_less_iff)
    have lt: "ix < i \<longleftrightarrow> k \<le> nx" "ix = i - 1 \<longleftrightarrow> k = nx" "j \<le> ix \<longleftrightarrow> ?M < k"
      using ix(2) ij(1,4,5) by linarith+
    have "b2 ! ix = (if ix = i - 1 then b1 ! (i - 1) + cc else b1 ! ix)"
      using ix(1) lb1 by (simp add: b2_def nth_list_update)
    moreover have "b1 ! ix = (if i \<le> ix \<and> ix < j then 0 else ?xs ! ix)"
      using replace_zeros_nth [of i j ?xs ix] ij ix(1) by (simp add: b1_def)
    moreover have "?xs ! ix = ?F k"
      unfolding bin_count_def ix_def using True by simp
    ultimately have "b2 ! ix = (if nx < k then 0 else ?F k + (if k = nx then cc else 0))"
      using lt Fz [of k] ij(1) by (auto split: if_splits)
    then show ?thesis
      using True l2 by (simp add: bin_count_def ix_def store_length_def b2_def lb1)
  next
    case False
    then show ?thesis using mn l2 Fz [of k] p(6)
      by (auto simp: bin_count_def store_length_def b2_def lb1)
  qed
  have "sum ?F {nx..?M} = ?F nx + (sum_list (take j ?xs) - sum_list (take i ?xs))"
    using fold_above_bin_count [OF pre mn(2,3)] by (simp only: i_def j_def)
  then have cc: "sum ?F {nx..?M} = ?F nx + cc"
    using sum_take_drop_diff [of i j ?xs] ij(2) by (simp add: cc_def)
  have bt: "bin_count ?t' = bin_count (?t2\<lparr>bins := bs, offset := a\<rparr>)"
    by (simp add: bin_count_def fun_eq_iff)
  have wn: "nx = a + store_length t - 1" using len by (simp add: nx_def)
  have bc: "bin_count ?t' = fold_above ?M nx ?F"
  proof
    fix k
    consider "nx < k" | "k = nx" | "a \<le> k" "k < nx" | "k < a"
      by linarith
    then show "bin_count ?t' k = fold_above ?M nx ?F k"
    proof cases
      case 1
      then show ?thesis using bs(3) bt bc2 [of k] by (simp add: fold_above_def)
    next
      case 2
      then show ?thesis using bs(3) bt bc2 [of k] cc wn mn p(3,11) len by (simp add: fold_above_def)
    next
      case 3
      then show ?thesis using bs(3) bt bc2 [of k] wn by (simp add: fold_above_def)
    next
      case 4
      then show ?thesis using bs(3) bt Fz [of k] mn p(11) by (simp add: fold_above_def)
    qed
  qed
  let ?K = "{?o..<?o + store_length t} \<union> {a..<a + store_length t}"
  have lt': "store_length ?t' = store_length t" using bs(2) l2 by (simp add: store_length_def)
  have "sum_list bs = sum (bin_count ?t') ?K"
    using sum_list_bins_superset [of ?K ?t'] lt' by auto
  also have "\<dots> = sum ?F ?K"
    unfolding bc by (rule sum_fold_above) (use mn p(6,9) in \<open>auto simp: bin_count_def\<close>)
  also have "\<dots> = count t"
    using sum_list_bins_superset [of ?K t] p(2) by auto
  finally have sum: "sum_list bs = count t" .
  have supp: "\<forall>k. bin_count ?t' k \<noteq> 0 \<longrightarrow> a \<le> k \<and> k \<le> nx"
    using p(9,11) mn unfolding bc by (auto simp: fold_above_def split: if_splits)
  have ne: "bs \<noteq> []" using bs(2) lb1 p(5) by (auto simp: b2_def)
  have wf: "dense_wf ?t'"
    by (rule dense_wf_intro) (use p lt' sum supp ne mn len in \<open>auto simp: store_length_def nx_def\<close>)
  have "hadj_post t a b ?t'"
    using wf p wide bc len lt' mn right by (auto simp: hadj_post_def highest_inv_def nx_def)
  then show ?thesis using adj by auto
qed

section \<open>extend_range, get_index and add\<close>

lemma highest_inv_window:
  assumes "highest_inv s" "bins s \<noteq> []"
  shows "offset s \<le> min_key s" "min_key s \<le> max_key s" "max_key s < offset s + store_length s"
    "max_key s \<le> min_key s + bin_limit s - 1" "0 < bin_limit s" "store_length s \<le> bin_limit s"
  using assms by (auto simp: highest_inv_def dense_wf_def)

lemma highest_adjust_post:
  assumes pre: "hadj_pre t a b" and len: "b - a + 1 \<le> store_length t \<or> store_length t = bin_limit t"
    and high: "max_key t < b \<Longrightarrow> a = min_key t"
  shows "\<exists>t'. highest_adjust t a b = Inr t' \<and> hadj_post t a b t'"
proof (cases "b - a + 1 \<le> store_length t")
  case True
  then show ?thesis using highest_adjust_center [OF pre] by blast
next
  case False
  note p = hadj_pre_facts [OF pre]
  have L: "store_length t = bin_limit t" using len False by simp
  have wide: "bin_limit t < b - a + 1" using L False by simp
  show ?thesis
  proof (cases "a + bin_limit t - 1 \<le> min_key t")
    case True
    then show ?thesis using highest_adjust_wipe [OF pre L wide] by blast
  next
    case nw: False
    show ?thesis
    proof (cases "offset t \<le> a")
      case True
      then show ?thesis using highest_adjust_shift_left [OF pre L wide] nw by simp
    next
      case False
      have "b = max_key t"
      proof (rule ccontr)
        assume "b \<noteq> max_key t"
        then have "a = min_key t" using high p(12) by simp
        then show False using False p(6) by simp
      qed
      then show ?thesis using highest_adjust_fold [OF pre L wide] nw False by simp
    qed
  qed
qed

lemma hadj_post_cong:
  assumes "hadj_post t a b t'" "bin_limit u = bin_limit t" "chunk_size u = chunk_size t" "count u = count t"
    "max_key u = max_key t" "bin_count u = bin_count t" "is_collapsed u = is_collapsed t"
  shows "hadj_post u a b t'"
  using assms by (simp add: hadj_post_def)

lemma highest_extend_post:
  assumes inv: "highest_inv s" "bins s \<noteq> []" and k: "int64_min \<le> key" "key \<le> int64_max"
    and out: "key < min_key s \<or> max_key s < key" and col: "is_collapsed s \<Longrightarrow> key < min_key s"
  shows "\<exists>s'. highest_extend_range s key key = Inr s' \<and>
           hadj_post s (min key (min_key s)) (max key (max_key s)) s'"
proof -
  define a where "a = min key (min_key s)"
  define b where "b = max key (max_key s)"
  note w = highest_inv_window [OF inv]
  have wf: "dense_wf s" using inv(1) by (simp add: highest_inv_def)
  have c: "0 < chunk_size s" "count s = sum_list (bins s)" "int64_min \<le> min_key s" "max_key s \<le> int64_max"
    using wf by (simp_all add: dense_wf_def)
  have supp: "\<forall>k. bin_count s k \<noteq> 0 \<longrightarrow> min_key s \<le> k \<and> k \<le> max_key s"
    using wf_support [OF wf] by blast
  have nm: "min key (min key (min_key s)) = a" "max key (max key (max_key s)) = b"
    by (simp_all add: a_def b_def)
  have ab: "a \<le> min_key s" "max_key s \<le> b" "int64_min \<le> a" "b \<le> int64_max"
    using k c by (auto simp: a_def b_def)
  have abc: "b = max_key s \<and> a = key" if "is_collapsed s"
    using col [OF that] w by (auto simp: a_def b_def)
  have ne: "\<not> is_empty s" using inv(2) by (simp add: is_empty_def store_length_def)
  have cinv: "is_collapsed s \<Longrightarrow> offset s = min_key s \<and> max_key s = min_key s + bin_limit s - 1 \<and>
      store_length s = bin_limit s"
    using inv(1) by (simp add: highest_inv_def)
  have "\<exists>s'. highest_extend_range s key key = Inr s' \<and> hadj_post s a b s'"
  proof (cases "min_key s \<le> a \<and> b < offset s + store_length s")
    case True
    let ?s' = "s\<lparr>min_key := a, max_key := b\<rparr>"
    have ext: "highest_extend_range s key key = Inr ?s'"
      unfolding highest_extend_range_def extend_range_def Let_def nm using True ne by simp
    have hi: "max_key s < key" "a = min_key s" "b = key" using True out by (auto simp: a_def b_def)
    have nc: "\<not> is_collapsed s" using col hi w(2) by fastforce
    have wf': "dense_wf ?s'"
      by (rule dense_wf_intro) (use c w inv(2) supp True hi k in auto)
    have bl: "b \<le> a + bin_limit s - 1" using True w(1,6) hi by simp
    have fold: "fold_above (max_key s) (a + bin_limit s - 1) (bin_count s) = bin_count s"
      by (rule fold_above_id) (use supp hi bl in force)+
    have "hadj_post s a b ?s'"
      using wf' w True hi nc fold c inv(2) bl by (auto simp: hadj_post_def highest_inv_def)
    then show ?thesis using ext by blast
  next
    case False
    define nl where "nl = collapsing_get_new_length s a b"
    define s1 where "s1 = (if store_length s < nl
                   then s\<lparr>bins := extend_back_with_zeros (bins s) (nat (nl - store_length s))\<rparr> else s)"
    have ext: "highest_extend_range s key key = highest_adjust s1 a b"
      unfolding highest_extend_range_def extend_range_def Let_def nm using False ne by (auto simp: s1_def nl_def)
    have g: "store_length s \<le> store_length s1" "store_length s1 \<le> bin_limit s"
      "b - a + 1 \<le> store_length s1 \<or> store_length s1 = bin_limit s"
      using collapsing_grow_length [OF c(1) w(6) s1_def [unfolded nl_def]] by simp_all
    have f1: "bin_count s1 = bin_count s" "bin_limit s1 = bin_limit s" "chunk_size s1 = chunk_size s"
      "count s1 = count s" "min_key s1 = min_key s" "max_key s1 = max_key s" "offset s1 = offset s"
      "is_collapsed s1 = is_collapsed s" "sum_list (bins s1) = sum_list (bins s)" "bins s1 \<noteq> []"
      using inv(2) by (simp_all add: s1_def) (simp_all add: extend_back_with_zeros_def sum_list_replicate)
    have pre: "hadj_pre s1 a b"
      using f1 g c w supp cinv col ab abc by (auto simp: hadj_pre_def)
    have high: "a = min_key s1" if "max_key s1 < b"
      using that f1 out w(2) by (auto simp: a_def b_def)
    obtain t' where t': "highest_adjust s1 a b = Inr t'" "hadj_post s1 a b t'"
      using highest_adjust_post [OF pre _ high] g(3) f1(2) by auto
    have "hadj_post s a b t'"
      by (rule hadj_post_cong [OF t'(2)]) (simp_all add: f1)
    then show ?thesis using ext t'(1) by auto
  qed
  then show ?thesis by (simp only: a_def b_def)
qed

lemma hadj_post_facts:
  assumes "hadj_post t a b t'"
  shows "highest_inv t'" "bins t' \<noteq> []" "bin_limit t' = bin_limit t" "chunk_size t' = chunk_size t"
    "count t' = count t" "min_key t' = a" "max_key t' = min b (a + bin_limit t - 1)"
    "bin_count t' = fold_above (max_key t) (a + bin_limit t - 1) (bin_count t)"
    "is_collapsed t' \<longleftrightarrow> is_collapsed t \<or> bin_limit t < b - a + 1"
  using assms by (simp_all add: hadj_post_def)

lemma hadj_post_refl:
  assumes inv: "highest_inv s" "bins s \<noteq> []" and b: "max_key s \<le> b"
    "max_key s = min b (min_key s + bin_limit s - 1)"
    and c: "is_collapsed s \<or> \<not> bin_limit s < b - min_key s + 1"
  shows "hadj_post s (min_key s) b s"
proof -
  note w = highest_inv_window [OF inv]
  have "fold_above (max_key s) (min_key s + bin_limit s - 1) (bin_count s) = bin_count s"
    by (rule fold_above_id) (use wf_support inv(1) w(4) in \<open>auto simp: highest_inv_def\<close>)
  then show ?thesis using inv b c by (auto simp: hadj_post_def)
qed

lemma highest_get_index_post:
  assumes inv: "highest_inv s" "bins s \<noteq> []" and k: "int64_min \<le> key" "key \<le> int64_max"
  defines "hi \<equiv> min key (min_key s) + bin_limit s - 1"
  shows "\<exists>s1. highest_get_index s key = Inr (s1, min key hi - offset s1) \<and>
           hadj_post s (min key (min_key s)) (max key (max_key s)) s1 \<and>
           min_key s1 \<le> min key hi \<and> min key hi \<le> max_key s1"
proof -
  note w = highest_inv_window [OF inv]
  have cinv: "is_collapsed s \<Longrightarrow> offset s = min_key s \<and> max_key s = min_key s + bin_limit s - 1 \<and>
      store_length s = bin_limit s"
    using inv(1) by (simp add: highest_inv_def)
  consider (high_c) "max_key s < key" "is_collapsed s" | (high) "max_key s < key" "\<not> is_collapsed s"
    | (low) "key < min_key s" | (mid) "min_key s \<le> key" "key \<le> max_key s"
    by linarith
  then show ?thesis
  proof cases
    case high_c
    have e: "min key hi = max_key s" "min key (min_key s) = min_key s" "max key (max_key s) = key"
      using high_c cinv w(2) by (auto simp: hi_def)
    have "hadj_post s (min_key s) key s"
      by (rule hadj_post_refl [OF inv]) (use high_c cinv in auto)
    moreover have "highest_get_index s key = Inr (s, min key hi - offset s)"
      using high_c e cinv by (simp add: highest_get_index_def)
    ultimately show ?thesis using e w by (auto simp: hi_def)
  next
    case high
    have e: "min key (min_key s) = min_key s" "max key (max_key s) = key"
      using high w(2) by auto
    obtain s1 where s1: "highest_extend_range s key key = Inr s1" "hadj_post s (min_key s) key s1"
      using highest_extend_post [OF inv k] high e by force
    note f = hadj_post_facts [OF s1(2)]
    show ?thesis
    proof (cases "is_collapsed s1")
      case True
      have o: "offset s1 + store_length s1 - 1 = max_key s1" using f(1,3,6,7) True by (simp add: highest_inv_def)
      have "min key hi = max_key s1" using f(7) by (simp add: hi_def e min.commute)
      then show ?thesis using s1 high True o f(6) f(1) highest_inv_window [OF f(1,2)] e
        by (simp add: highest_get_index_def)
    next
      case False
      have "\<not> bin_limit s < key - min_key s + 1" using False f(9) by simp
      then have "min key hi = key" "max_key s1 = key" using f(7) by (simp_all add: hi_def e)
      then show ?thesis using s1 high False f(6) w(2) e by (simp add: highest_get_index_def)
    qed
  next
    case low
    have e: "min key (min_key s) = key" "max key (max_key s) = max_key s" "min key hi = key"
      using low w(2,5) by (auto simp: hi_def)
    obtain s1 where s1: "highest_extend_range s key key = Inr s1" "hadj_post s key (max_key s) s1"
      using highest_extend_post [OF inv k] low cinv e by force
    note f = hadj_post_facts [OF s1(2)]
    show ?thesis using s1 low f(6,7) w(2,5) e by (simp add: highest_get_index_def)
  next
    case mid
    have e: "min key (min_key s) = min_key s" "max key (max_key s) = max_key s" "min key hi = key"
      using mid w(4) by (auto simp: hi_def)
    have "hadj_post s (min_key s) (max_key s) s"
      by (rule hadj_post_refl [OF inv]) (use w(4) in auto)
    then show ?thesis using mid e by (simp add: highest_get_index_def)
  qed
qed

lemma highest_inv_add_at:
  assumes inv: "highest_inv s" and k: "min_key s \<le> k" "k \<le> max_key s"
  shows "\<exists>b. bl_add (bins s) (k - offset s) w = Inr b \<and> highest_inv (s\<lparr>bins := b, count := count s + w\<rparr>)
    \<and> b \<noteq> [] \<and> bin_count (s\<lparr>bins := b, count := count s + w\<rparr>) = abs_add (bin_count s) k w"
proof -
  have wf: "dense_wf s" using inv by (simp add: highest_inv_def)
  obtain b where b: "bl_add (bins s) (k - offset s) w = Inr b"
      "dense_wf (s\<lparr>bins := b, count := count s + w\<rparr>)"
      "bin_count (s\<lparr>bins := b, count := count s + w\<rparr>) = (bin_count s)(k := bin_count s k + w)"
    using wf_add_at [OF wf k] by blast
  have ne: "bins s \<noteq> []" using wf_nonempty [OF wf k] .
  note win = wf_window [OF wf ne]
  have "b = (bins s)[nat (k - offset s) := bins s ! nat (k - offset s) + w]"
    using b(1) bl_add_Inr [of "k - offset s" "bins s" w] win k by (simp add: store_length_def)
  then have l: "length b = length (bins s)" by simp
  have "highest_inv (s\<lparr>bins := b, count := count s + w\<rparr>)"
    using inv b(2) l by (simp add: highest_inv_def store_length_def)
  then show ?thesis using b(1,3) l ne by (auto simp: abs_add_def)
qed

lemma highest_add_step:
  assumes inv: "highest_inv s" "bins s \<noteq> []" and k: "int64_min \<le> key" "key \<le> int64_max"
  defines "hi \<equiv> min key (min_key s) + bin_limit s - 1"
  shows "\<exists>s'. highest_add s key w = Inr s' \<and> highest_inv s' \<and> bins s' \<noteq> [] \<and>
           bin_limit s' = bin_limit s \<and> chunk_size s' = chunk_size s \<and> count s' = count s + w \<and>
           min_key s' = min key (min_key s) \<and>
           bin_count s' = abs_add (fold_above (max_key s) hi (bin_count s)) (min key hi) w"
proof -
  obtain s1 where s1: "highest_get_index s key = Inr (s1, min key hi - offset s1)"
      "hadj_post s (min key (min_key s)) (max key (max_key s)) s1"
      "min_key s1 \<le> min key hi" "min key hi \<le> max_key s1"
    using highest_get_index_post [OF inv k] unfolding hi_def by blast
  note f = hadj_post_facts [OF s1(2)]
  obtain b where b: "bl_add (bins s1) (min key hi - offset s1) w = Inr b"
      "highest_inv (s1\<lparr>bins := b, count := count s1 + w\<rparr>)" "b \<noteq> []"
      "bin_count (s1\<lparr>bins := b, count := count s1 + w\<rparr>) = abs_add (bin_count s1) (min key hi) w"
    using highest_inv_add_at [OF f(1) s1(3,4)] by blast
  have "highest_add s key w = Inr (s1\<lparr>bins := b, count := count s1 + w\<rparr>)"
    using s1(1) b(1) by (simp add: highest_add_def store_add_def)
  then show ?thesis using b f unfolding hi_def by auto
qed

section \<open>Clamped counts and runs of adds\<close>

lemma clamp_high_count_Cons:
  "clamp_high_count hi ((v, w) # kws) k = (if min v hi = k then w else 0) + clamp_high_count hi kws k"
  by (simp add: clamp_high_count_def)

lemma clamp_high_count_snoc:
  "clamp_high_count hi (kws @ [(v, w)]) = abs_add (clamp_high_count hi kws) (min v hi) w"
  by (simp add: clamp_high_count_def abs_add_def fun_eq_iff)

lemma sum_clamp_high_count:
  assumes "finite S" "S \<subseteq> {hi'..}" "hi' \<le> hi"
    and "\<forall>(v, w)\<in>set kws. hi' \<le> min v hi \<longrightarrow> min v hi \<in> S"
  shows "sum (clamp_high_count hi kws) S = clamp_high_count hi' kws hi'"
  using assms(4)
proof (induction kws)
  case Nil
  then show ?case by (simp add: clamp_high_count_def)
next
  case (Cons vw kws)
  obtain v w where vw: "vw = (v, w)" by (cases vw)
  have "(min v hi \<in> S) = (min v hi' = hi')"
    using Cons.prems assms(2,3) vw by auto
  moreover have "sum (clamp_high_count hi (vw # kws)) S =
      sum (\<lambda>k. if min v hi = k then w else 0) S + sum (clamp_high_count hi kws) S"
    by (simp add: vw clamp_high_count_Cons sum.distrib)
  ultimately show ?case
    using Cons assms(1) vw by (simp add: clamp_high_count_Cons sum.delta)
qed

lemma fold_above_clamp:
  assumes supp: "\<forall>j. clamp_high_count hi kws j \<noteq> 0 \<longrightarrow> j \<le> M" and hi: "hi' \<le> hi"
  shows "fold_above M hi' (clamp_high_count hi kws) = clamp_high_count hi' kws"
proof
  fix j
  let ?g = "clamp_high_count hi kws"
  let ?S = "{hi'..M} \<union> ((\<lambda>(v, w). min v hi) ` set kws \<inter> {hi'..})"
  have fin: "finite ?S" by simp
  have "sum ?g {hi'..M} = sum ?g ?S"
    by (rule sum.mono_neutral_left) (use supp in auto)
  also have "\<dots> = clamp_high_count hi' kws hi'"
    by (rule sum_clamp_high_count) (use hi in auto)
  finally have at: "sum ?g {hi'..M} = clamp_high_count hi' kws hi'" .
  have "filter (\<lambda>(v, w). min v hi' = j) kws = filter (\<lambda>(v, w). min v hi = j) kws" if "j < hi'"
    by (rule filter_cong) (use that hi in auto)
  moreover have "filter (\<lambda>(v, w). min v hi' = j) kws = []" if "hi' < j"
    using that by (auto simp: filter_empty_conv)
  ultimately show "fold_above M hi' ?g j = clamp_high_count hi' kws j"
    using at by (auto simp: fold_above_def clamp_high_count_def)
qed

lemma highest_add_all_clamp:
  assumes "highest_inv s" "bins s \<noteq> []" "bin_count s = clamp_high_count (min_key s + bin_limit s - 1) hs"
    and "keys_in_range kws"
  shows "\<exists>s'. highest_add_all s kws = Inr s' \<and> highest_inv s' \<and> bins s' \<noteq> [] \<and>
           bin_limit s' = bin_limit s \<and> chunk_size s' = chunk_size s \<and>
           count s' = count s + sum_list (map snd kws) \<and> min_key s' = fold min (map fst kws) (min_key s) \<and>
           bin_count s' = clamp_high_count (min_key s' + bin_limit s - 1) (hs @ kws)"
  using assms
proof (induction kws arbitrary: s hs)
  case Nil
  then show ?case by simp
next
  case (Cons kw kws)
  obtain k w where kw: "kw = (k, w)" by (cases kw)
  have k: "int64_min \<le> k" "k \<le> int64_max" "keys_in_range kws"
    using Cons.prems(4) kw by (simp_all add: keys_in_range_def)
  define hi where "hi = min k (min_key s) + bin_limit s - 1"
  obtain s1 where s1: "highest_add s k w = Inr s1" "highest_inv s1" "bins s1 \<noteq> []"
      "bin_limit s1 = bin_limit s" "chunk_size s1 = chunk_size s" "count s1 = count s + w"
      "min_key s1 = min k (min_key s)"
      "bin_count s1 = abs_add (fold_above (max_key s) hi (bin_count s)) (min k hi) w"
    using highest_add_step [OF Cons.prems(1,2) k(1,2), of w] unfolding hi_def by blast
  have wf: "dense_wf s" using Cons.prems(1) by (simp add: highest_inv_def)
  have "fold_above (max_key s) hi (bin_count s) = clamp_high_count hi hs"
    unfolding Cons.prems(3) by (rule fold_above_clamp) (use wf_support [OF wf] Cons.prems(3) hi_def in auto)
  then have bc1: "bin_count s1 = clamp_high_count (min_key s1 + bin_limit s1 - 1) (hs @ [(k, w)])"
    using s1(4,7,8) by (simp add: clamp_high_count_snoc hi_def)
  obtain s' where s': "highest_add_all s1 kws = Inr s'" "highest_inv s'" "bins s' \<noteq> []"
      "bin_limit s' = bin_limit s1" "chunk_size s' = chunk_size s1"
      "count s' = count s1 + sum_list (map snd kws)" "min_key s' = fold min (map fst kws) (min_key s1)"
      "bin_count s' = clamp_high_count (min_key s' + bin_limit s1 - 1) ((hs @ [(k, w)]) @ kws)"
    using Cons.IH [OF s1(2,3) bc1 k(3)] by blast
  show ?case using s1 s' kw by simp
qed

section \<open>Collapse correctness\<close>

text \<open>
  C24. A run of \<open>add\<close> calls on a new collapsing-highest store with positive
  \<open>bin_limit\<close> and \<open>chunk_size\<close>, with keys and limit in the range where the
  store's \<open>Index\<close> arithmetic does not overflow (\<open>collapse_safe\<close>), returns a store that keeps the
  invariant, holds at most \<open>bin_limit\<close> bins and the total weight, has the
  smallest key as \<open>min_key_\<close>, and counts at each key \<open>k\<close> the weights of the
  added keys \<open>v\<close> with \<open>min v (min_key + bin_limit - 1) = k\<close>: keys above the
  window are collapsed into its highest bin and nothing else is moved.
\<close>

theorem highest_collapse_correct:
  assumes lim: "0 < limit" "0 < chunk" and kws: "kws \<noteq> []" and safe: "collapse_safe limit kws"
  shows "\<exists>s'. highest_add_all (new_collapsing_store limit chunk) kws = Inr s' \<and> highest_inv s' \<and>
           store_length s' \<le> limit \<and> count s' = sum_list (map snd kws) \<and> min_key s' = Min (fst ` set kws) \<and>
           bin_count s' = clamp_high_count (Min (fst ` set kws) + limit - 1) kws"
proof -
  obtain k w rest where kw: "kws = (k, w) # rest" using kws by (cases kws) auto
  have k: "int64_min \<le> k" "k \<le> int64_max" "keys_in_range rest"
    using collapse_safe_keys_in_range [OF safe] kw by (simp_all add: keys_in_range_def)
  obtain s1 where s1: "highest_add (new_collapsing_store limit chunk) k w = Inr s1" "dense_wf s1"
      "bin_count s1 = (\<lambda>j. if j = k then w else 0)" "count s1 = w" "min_key s1 = k" "max_key s1 = k"
      "store_length s1 = min chunk limit" "bin_limit s1 = limit" "\<not> is_collapsed s1"
    using highest_first_add_Inr [OF lim k(1,2), of w] by blast
  have inv1: "highest_inv s1" using s1 lim by (simp add: highest_inv_def)
  have ne1: "bins s1 \<noteq> []" using s1(7) lim by (auto simp: store_length_def)
  have bc1: "bin_count s1 = clamp_high_count (min_key s1 + bin_limit s1 - 1) [(k, w)]"
    using s1(3,5,8) lim by (auto simp: clamp_high_count_def fun_eq_iff)
  obtain s' where s': "highest_add_all s1 rest = Inr s'" "highest_inv s'" "bin_limit s' = limit"
      "count s' = w + sum_list (map snd rest)" "min_key s' = fold min (map fst rest) k"
      "bin_count s' = clamp_high_count (min_key s' + limit - 1) ([(k, w)] @ rest)"
    using highest_add_all_clamp [OF inv1 ne1 bc1 k(3)] s1(4,5,8) by auto
  have mn: "Min (fst ` set kws) = fold min (map fst rest) k"
    using Min.set_eq_fold [of k "map fst rest"] kw by simp
  have "store_length s' \<le> limit" using s'(2,3) by (simp add: highest_inv_def)
  then show ?thesis using s1(1) s' kw mn by simp
qed

theorem highest_collapse_correct_witness:
  "\<exists>s'. highest_add_all (new_collapsing_store 4 2) [(10, 1), (13, 1), (17, 5), (16, 7)] = Inr s' \<and>
     store_length s' \<le> 4 \<and> count s' = 14 \<and> min_key s' = 10 \<and>
     bin_count s' 13 = 13 \<and> bin_count s' 10 = 1 \<and> bin_count s' 16 = 0"
proof -
  obtain s' where s': "highest_add_all (new_collapsing_store 4 2) [(10, 1), (13, 1), (17, 5), (16, 7)] = Inr s'"
      "store_length s' \<le> 4" "count s' = 14" "min_key s' = 10"
      "bin_count s' = clamp_high_count 13 [(10, 1), (13, 1), (17, 5), (16, 7)]"
    using highest_collapse_correct [of 4 2 "[(10, 1), (13, 1), (17, 5), (16, 7)]"]
    by (auto simp: collapse_safe_def simp del: highest_add_all.simps)
  then show ?thesis by (auto simp: clamp_high_count_def simp del: highest_add_all.simps)
qed

end
