(* ===== verification/DataSets.thy ===== *)
theory DataSets
  imports DDS_Prelude "HOL-Library.Multiset"
begin

text \<open>
  The synthetic data sets of the tests (test/datasets.h, class template \<open>DataSet\<close>
  and its subclasses). A data set is its vector \<open>data_\<close>, a list of values.
  \<open>len\<close>, \<open>rank\<close>, \<open>quantile\<close>, \<open>sum\<close> and \<open>avg\<close> are the base-class queries the
  accuracy tests compare a sketch with; \<open>EmptyDataSet\<close> grows by \<open>add\<close> and
  \<open>add_all\<close>; every deterministic subclass has its \<open>populate(size)\<close> here. The
  \<open>int size\<close> parameter is an \<open>int\<close>: a negative one makes \<open>data_.resize\<close> throw
  \<open>std::length_error\<close>. The generators drawing from \<open>std::mt19937\<close> distributions
  (Exponential, Lognormal, Normal, Laplace, Bimodal, Mixed, Trimodal, Integers)
  are not modelled.
\<close>

type_synonym data_set = "real_value list"

section \<open>DataSet queries\<close>

definition dataset_len :: "data_set \<Rightarrow> nat" where
  "dataset_len d = length d"

text \<open>\<open>std::lower_bound\<close> on a sorted range: the position of the first element not less than \<open>v\<close>.\<close>

definition lower_bound :: "real list \<Rightarrow> real \<Rightarrow> nat" where
  "lower_bound ys v = length (takeWhile (\<lambda>x. x < v) ys)"

text \<open>
  \<open>rank(value)\<close>: on an empty set \<open>tmp_data.size() - 1\<close> wraps to \<open>SIZE_MAX\<close>, which
  the \<open>int\<close> variable \<open>index\<close> holds as \<open>-1\<close>.
\<close>

definition dataset_rank :: "data_set \<Rightarrow> real_value \<Rightarrow> index" where
  "dataset_rank d v =
     (let tmp_data = sort d; i = lower_bound tmp_data v
      in if i = length tmp_data then int (length tmp_data) - 1 else int i)"

text \<open>
  \<open>quantile(q)\<close>: \<open>item_rank = q * (data_.size() - 1)\<close> converted to \<open>Index\<close>
  (truncation), then \<open>tmp_data[item_rank]\<close> without a bounds check. On an empty set
  \<open>size() - 1\<close> wraps and the access is undefined; so is an \<open>item_rank\<close> outside the
  vector (a quantile outside \<open>[0, 1]\<close>).
\<close>

definition dataset_quantile :: "data_set \<Rightarrow> real \<Rightarrow> real_value res" where
  "dataset_quantile d q =
     (if d = [] then Inl OutOfRange
      else (let tmp_data = sort d; item_rank = trunc_cast (q * real (length d - 1))
            in if 0 \<le> item_rank \<and> item_rank < int (length tmp_data)
               then Inr (tmp_data ! nat item_rank) else Inl OutOfRange))"

definition dataset_sum :: "data_set \<Rightarrow> real_value" where
  "dataset_sum d = foldl (+) 0 d"

text \<open>\<open>avg()\<close> divides by \<open>len()\<close>; on an empty set it is \<open>0.0 / 0\<close>, NaN, modelled as \<open>None\<close>.\<close>

definition dataset_avg :: "data_set \<Rightarrow> real_value option" where
  "dataset_avg d = (if dataset_len d = 0 then None else Some (dataset_sum d / real (dataset_len d)))"

section \<open>EmptyDataSet\<close>

definition empty_add :: "data_set \<Rightarrow> real_value \<Rightarrow> data_set" where
  "empty_add d v = d @ [v]"

text \<open>\<open>add_all\<close> inserts the values at the front (\<open>data_.insert(data_.begin(), ...)\<close>).\<close>

definition empty_add_all :: "data_set \<Rightarrow> real_value list \<Rightarrow> data_set" where
  "empty_add_all d vs = vs @ d"

section \<open>Deterministic generators\<close>

text \<open>\<open>data_.resize(size)\<close>: a negative \<open>int\<close> converts to a huge \<open>size_t\<close>.\<close>

definition resize_size :: "int \<Rightarrow> nat res" where
  "resize_size sz = (if sz < 0 then Inl LengthError else Inr (nat sz))"

definition uniform_forward :: "int \<Rightarrow> data_set res" where
  "uniform_forward sz = res_bind (resize_size sz) (\<lambda>n. Inr (map (\<lambda>k. real k) [0..<n]))"

definition uniform_backward :: "int \<Rightarrow> data_set res" where
  "uniform_backward sz =
     res_bind (resize_size sz) (\<lambda>n. Inr (map (\<lambda>k. real_of_int (sz - int k)) [0..<n]))"

definition negative_uniform_forward :: "int \<Rightarrow> data_set res" where
  "negative_uniform_forward sz =
     res_bind (resize_size sz) (\<lambda>n. Inr (map (\<lambda>k. real_of_int (- (sz - int k))) [0..<n]))"

definition negative_uniform_backward :: "int \<Rightarrow> data_set res" where
  "negative_uniform_backward sz =
     res_bind (resize_size sz) (\<lambda>n. Inr (map (\<lambda>k. real_of_int (- int k)) [0..<n]))"

text \<open>\<open>NumberLineForward\<close> starts its counter at \<open>-size / 2 + 1\<close> and emits \<open>-n++\<close>.\<close>

definition number_line_forward :: "int \<Rightarrow> data_set res" where
  "number_line_forward sz =
     res_bind (resize_size sz)
       (\<lambda>n. Inr (map (\<lambda>k. real_of_int (- (c_div (- sz) 2 + 1 + int k))) [0..<n]))"

definition number_line_backward :: "int \<Rightarrow> data_set res" where
  "number_line_backward sz =
     res_bind (resize_size sz) (\<lambda>n. Inr (map (\<lambda>k. real_of_int (c_div sz 2 - int k)) [0..<n]))"

definition constant_populate :: "real_value \<Rightarrow> int \<Rightarrow> data_set res" where
  "constant_populate constant sz = res_bind (resize_size sz) (\<lambda>n. Inr (replicate n constant))"

text \<open>
  \<open>UniformZoomIn\<close> writes \<open>item, size - item - 1\<close> for each \<open>item < size / 2\<close>, then the
  middle value when \<open>size\<close> is odd; every position of \<open>data_\<close> is written in order.
\<close>

definition uniform_zoom_in :: "int \<Rightarrow> data_set res" where
  "uniform_zoom_in sz =
     res_bind (resize_size sz)
       (\<lambda>n. Inr (concat (map (\<lambda>item. [real_of_int item, real_of_int (sz - item - 1)]) [0..c_div sz 2 - 1])
                 @ (if sz mod 2 \<noteq> 0 then [real_of_int (c_div sz 2)] else [])))"

text \<open>
  \<open>UniformZoomOut\<close>: for odd sizes the middle value, then \<open>half + item, half - item\<close>;
  for even sizes \<open>half = ceil(size / 2.0) - 0.5\<close> and the two values are
  \<open>static_cast<int>(half + item + 0.5)\<close> and \<open>static_cast<int>(half - item - 0.5)\<close>.
\<close>

definition uniform_zoom_out :: "int \<Rightarrow> data_set res" where
  "uniform_zoom_out sz =
     res_bind (resize_size sz)
       (\<lambda>n. if sz mod 2 \<noteq> 0 then
              (let half = c_div sz 2
               in Inr (real_of_int half #
                       concat (map (\<lambda>item. [real_of_int (half + item), real_of_int (half - item)]) [1..half])))
            else
              (let half = real_of_int \<lceil>real_of_int sz / 2\<rceil> - 1 / 2;
                   upper_limit = trunc_cast (half + 1 / 2)
               in Inr (concat (map (\<lambda>item. [real_of_int (trunc_cast (half + real_of_int item + 1 / 2)),
                                             real_of_int (trunc_cast (half - real_of_int item - 1 / 2))])
                                 [0..upper_limit - 1]))))"

text \<open>
  \<open>UniformSqrt\<close>: \<open>t = static_cast<int>(std::sqrt(2 * size))\<close>.  \<open>2 * size\<close> is an
  \<open>int\<close> product and wraps (\<open>int32_wrap\<close>) for \<open>size \<ge> 2^30\<close>.  The square root
  of a non-negative \<open>int\<close> truncates to the integer square root \<open>isqrt\<close>: a
  correctly rounded \<open>sqrt\<close> of an integer below \<open>2^52\<close> never crosses an integer.
  The square root of a negative one is NaN, whose conversion to \<open>int\<close> is undefined.
  \<open>cast_sqrt\<close> takes the value x86's \<open>cvttsd2si\<close> gives, \<open>INT_MIN\<close>.  The inner
  \<open>for\<close> loop runs \<open>t - i\<close> times and writes \<open>data_[idx++] = item\<close> for the items
  below \<open>size\<close>.  \<open>idx\<close> is \<open>emitted\<close>, and a write at \<open>idx \<ge> size\<close> would fall
  outside the vector.  The outer \<open>while (emitted < size)\<close> loop is a
  \<open>partial_function\<close>: \<open>None\<close> is a run that does not end.
\<close>

definition int32_min :: int where
  "int32_min = - (2 ^ 31)"

definition int32_max :: int where
  "int32_max = 2 ^ 31 - 1"

definition int32_wrap :: "int \<Rightarrow> int" where
  "int32_wrap x = (x + 2 ^ 31) mod 2 ^ 32 - 2 ^ 31"

function isqrt_from :: "nat \<Rightarrow> nat \<Rightarrow> nat" where
  "isqrt_from n k = (if n < (k + 1) * (k + 1) then k else isqrt_from n (k + 1))"
  by auto
termination
  by (relation "measure (\<lambda>(n, k). Suc n - k)") (auto simp: Suc_diff_le le_square order.trans [OF _ le_square])

definition isqrt :: "nat \<Rightarrow> nat" where
  "isqrt n = isqrt_from n 0"

definition cast_sqrt :: "int \<Rightarrow> int" where
  "cast_sqrt m = (if m < 0 then int32_min else int (isqrt (nat m)))"

fun sqrt_inner :: "nat \<Rightarrow> int \<Rightarrow> int \<Rightarrow> int \<Rightarrow> int \<Rightarrow> data_set \<Rightarrow> (data_set \<times> int) res" where
  "sqrt_inner 0 sz item skip emitted out = Inr (out, emitted)"
| "sqrt_inner (Suc j) sz item skip emitted out =
     (if item < sz then
        (if sz \<le> emitted then Inl OutOfRange
         else sqrt_inner j sz (item + skip) (skip + 1) (emitted + 1) (out @ [real_of_int item]))
      else sqrt_inner j sz (item + skip) (skip + 1) emitted out)"

partial_function (option) sqrt_outer ::
  "int \<Rightarrow> int \<Rightarrow> int \<Rightarrow> int \<Rightarrow> int \<Rightarrow> int \<Rightarrow> data_set \<Rightarrow> data_set res option" where
  "sqrt_outer sz t initial_item initial_skip emitted i out =
     (if emitted < sz then
        (case sqrt_inner (nat (t - i)) sz initial_item initial_skip emitted out of
           Inl e \<Rightarrow> Some (Inl e)
         | Inr (out', emitted') \<Rightarrow>
             (if 1 < t - i then sqrt_outer sz t (initial_item + (initial_skip + 1)) (initial_skip + 1) emitted' (i + 1) out'
              else sqrt_outer sz t (initial_item + 1) initial_skip emitted' i out'))
      else Some (Inr out))"

definition uniform_sqrt :: "int \<Rightarrow> data_set res option" where
  "uniform_sqrt sz =
     (case resize_size sz of
        Inl e \<Rightarrow> Some (Inl e)
      | Inr n \<Rightarrow> sqrt_outer sz (cast_sqrt (int32_wrap (2 * sz))) 0 1 0 0 [])"

declare sqrt_outer.simps [code]

section \<open>Lemmas\<close>

lemma dataset_sum_eq: "dataset_sum d = sum_list d"
proof -
  have "foldl (+) a d = a + sum_list d" for a :: real
    by (induction d arbitrary: a) (simp_all add: algebra_simps)
  then show ?thesis by (simp add: dataset_sum_def)
qed

lemma sort_mset_cong: "mset d = mset d' \<Longrightarrow> sort d = sort d'"
  by (metis properties_for_sort mset_sort sorted_sort)

lemma takeWhile_less_nth:
  fixes ys :: "real list"
  assumes "sorted ys" "distinct ys" "r < length ys"
  shows "length (takeWhile (\<lambda>y. y < ys ! r) ys) = r"
proof -
  have st: "sorted_wrt (<) ys" using assms(1,2) by (simp add: strict_sorted_iff)
  have "takeWhile (\<lambda>y. y < ys ! r) ys = take r ys"
    by (rule takeWhile_eq_take_P_nth) (use st assms(3) sorted_wrt_nth_less in auto)
  then show ?thesis using assms(3) by simp
qed

lemma trunc_cast_nonneg_iff: "0 \<le> trunc_cast x \<longleftrightarrow> -1 < x"
  by (auto simp: trunc_cast_def ceiling_less_iff le_floor_iff)

lemma trunc_cast_less_iff: "0 < n \<Longrightarrow> trunc_cast x < int n \<longleftrightarrow> x < real n"
  by (auto simp: trunc_cast_def floor_less_iff ceiling_less_iff)

lemma dataset_quantile_eq:
  fixes d :: data_set and q :: real
  defines "r \<equiv> trunc_cast (q * real (length d - 1))"
  shows "dataset_quantile d q =
    (if d = [] then Inl OutOfRange
     else if 0 \<le> r \<and> r < int (length d) then Inr (sort d ! nat r) else Inl OutOfRange)"
  by (simp add: dataset_quantile_def Let_def r_def del: of_nat_diff)

lemma upto_shift_upt: "[a..a + int k - 1] = map (\<lambda>i. a + int i) [0..<k]"
proof (induction k)
  case 0
  then show ?case by simp
next
  case (Suc k)
  have "[a..a + int (Suc k) - 1] = [a..a + int k - 1] @ [a + int k]"
    using upto_rec2 [of a "a + int k"] by simp
  then show ?case using Suc by simp
qed

lemma pairs_distinct_set:
  assumes "{a..<a + int k} \<inter> {b - int k<..b} = {}"
  shows "distinct (concat (map (\<lambda>i. [a + int i, b - int i]) [0..<k])) \<and>
         set (concat (map (\<lambda>i. [a + int i, b - int i]) [0..<k])) = {a..<a + int k} \<union> {b - int k<..b}"
  using assms
proof (induction k)
  case 0
  then show ?case by simp
next
  case (Suc k)
  have "{a..<a + int k} \<inter> {b - int k<..b} \<subseteq> {a..<a + int (Suc k)} \<inter> {b - int (Suc k)<..b}"
    by auto
  then have d: "{a..<a + int k} \<inter> {b - int k<..b} = {}" using Suc.prems by blast
  have out: "x \<notin> {b - int (Suc k)<..b}" if "x \<in> {a..<a + int (Suc k)}" for x
    using Suc.prems that by blast
  have n: "a + int k \<notin> {b - int k<..b}" "b - int k \<notin> {a..<a + int k}" "a + int k \<noteq> b - int k"
    using out [of "a + int k"] out [of "b - int k"] by auto
  have "{a..<a + int (Suc k)} = insert (a + int k) {a..<a + int k}"
       "{b - int (Suc k)<..b} = insert (b - int k) {b - int k<..b}" by auto
  then show ?case using Suc.IH [OF d] n by auto
qed

lemma mset_int_perm:
  fixes xs :: "int list"
  assumes "distinct xs" "set xs = {0..<int n}"
  shows "mset (map real_of_int xs) = mset (map real [0..<n])"
proof -
  have "mset xs = mset (map int [0..<n])"
    by (rule iffD1 [OF set_eq_iff_mset_eq_distinct]) (use assms in \<open>auto simp: distinct_map image_int_atLeastLessThan\<close>)
  then have "mset (map real_of_int xs) = mset (map real_of_int (map int [0..<n]))"
    by (simp only: mset_map)
  then show ?thesis by (simp add: comp_def)
qed

lemma dataset_quantile_unit:
  assumes "d \<noteq> []" "0 \<le> q" "q \<le> 1"
  shows "dataset_quantile d q = Inr (sort d ! nat \<lfloor>q * (real (length d) - 1)\<rfloor>)"
proof -
  have n: "1 \<le> length d" using assms(1) by (cases d) auto
  have r: "0 \<le> q * (real (length d) - 1)" "q * (real (length d) - 1) \<le> real (length d) - 1"
    using assms(2,3) n by (simp_all add: mult_left_le_one_le)
  then have "\<lfloor>q * (real (length d) - 1)\<rfloor> < int (length d)"
    by (simp add: floor_less_iff)
  then show ?thesis
    using assms(1) r n by (simp add: dataset_quantile_eq trunc_cast_def of_nat_diff)
qed

lemma c_div_neg_two: "0 \<le> sz \<Longrightarrow> c_div (- sz) 2 = - (sz div 2)"
  by (cases "sz = 0") (auto simp: c_div_def sgn_if)

section \<open>Properties of the data sets\<close>

text \<open>
  C25. On a data set of distinct values, \<open>rank\<close> inverts \<open>quantile\<close>: the rank of
  the value \<open>quantile(q)\<close> returns is the \<open>item_rank\<close> it was read at.
\<close>

theorem quantile_rank_roundtrip:
  assumes "distinct d" "dataset_quantile d q = Inr x"
  shows "dataset_rank d x = trunc_cast (q * real (length d - 1))"
proof -
  define r where "r = trunc_cast (q * real (length d - 1))"
  have r: "d \<noteq> []" "0 \<le> r" "r < int (length d)" "x = sort d ! nat r"
    using assms(2) unfolding dataset_quantile_eq r_def [symmetric] by (auto split: if_splits)
  have "lower_bound (sort d) x = nat r"
    unfolding lower_bound_def r(4) by (rule takeWhile_less_nth) (use assms(1) r(2,3) in auto)
  moreover have "nat r < length d" using r(2,3) by (simp add: nat_less_iff)
  ultimately show ?thesis using r(2) unfolding r_def [symmetric] by (simp add: dataset_rank_def Let_def)
qed

theorem quantile_rank_roundtrip_witness:
  "distinct [3, 1, 2 :: real] \<and> dataset_quantile [3, 1, 2] (1 / 2) = Inr 2 \<and>
   dataset_rank [3, 1, 2] 2 = trunc_cast (1 / 2 * real (length [3, 1, 2 :: real] - 1))"
proof -
  have h: "distinct [3, 1, 2 :: real]" "dataset_quantile [3, 1, 2] (1 / 2) = Inr 2"
    by (simp_all add: dataset_quantile_def trunc_cast_def)
  show ?thesis using h quantile_rank_roundtrip [OF h] by simp
qed

text \<open>
  C26. \<open>quantile(q)\<close> makes an undefined access exactly when the data set is empty
  (\<open>size() - 1\<close> wraps) or \<open>q (size() - 1)\<close> truncates to an index outside the
  vector, i.e. is at most \<open>-1\<close> or at least \<open>size()\<close>; otherwise it returns a value.
\<close>

theorem quantile_out_of_range:
  "dataset_quantile d q = Inl OutOfRange \<longleftrightarrow>
   d = [] \<or> q * real (length d - 1) \<le> -1 \<or> real (length d) \<le> q * real (length d - 1)"
  unfolding dataset_quantile_eq by (auto simp: trunc_cast_nonneg_iff trunc_cast_less_iff not_less)

theorem quantile_out_of_range_witness:
  "dataset_quantile [] 0 = Inl OutOfRange \<and> dataset_quantile [1, 2] 2 = Inl OutOfRange \<and>
   dataset_quantile [1, 2] 1 \<noteq> Inl OutOfRange"
  using quantile_out_of_range [of "[]" 0] quantile_out_of_range [of "[1, 2]" 2]
    quantile_out_of_range [of "[1, 2]" 1]
  by simp

text \<open>
  C27. \<open>UniformZoomIn::populate(size)\<close> with \<open>size \<ge> 0\<close> fills the data set with a
  permutation of \<open>0, ..., size - 1\<close>, the values of \<open>UniformForward\<close>.
\<close>

theorem uniform_zoom_in_perm:
  assumes "0 \<le> sz"
  shows "\<exists>xs. uniform_zoom_in sz = Inr xs \<and> mset xs = mset (map real [0..<nat sz])"
proof -
  define h where "h = sz div 2"
  have h: "c_div sz 2 = h" "0 \<le> h" using assms by (simp_all add: h_def)
  let ?P = "concat (map (\<lambda>i. [0 + int i, (sz - 1) - int i]) [0..<nat h])"
  let ?M = "if sz mod 2 \<noteq> 0 then [h] else []"
  have pd: "distinct ?P \<and> set ?P = {0..<0 + int (nat h)} \<union> {(sz - 1) - int (nat h)<..sz - 1}"
    by (rule pairs_distinct_set) (use h assms in \<open>auto simp: h_def\<close>)
  have eq: "uniform_zoom_in sz = Inr (map real_of_int (?P @ ?M))"
    using upto_shift_upt [of 0 "nat h"] assms h
    by (simp add: uniform_zoom_in_def resize_size_def map_concat comp_def algebra_simps)
  have hs: "sz = 2 * h + sz mod 2" "sz mod 2 = 0 \<or> sz mod 2 = 1" by (auto simp: h_def)
  have "distinct (?P @ ?M) \<and> set (?P @ ?M) = {0..<sz}"
    using pd h hs by auto
  then show ?thesis using eq mset_int_perm [of "?P @ ?M" "nat sz"] assms by auto
qed

theorem uniform_zoom_in_perm_witness:
  "(0 :: int) \<le> 5 \<and> uniform_zoom_in 5 = Inr [0, 4, 1, 3, 2] \<and>
   mset [0, 4, 1, 3, 2 :: real] = mset (map real [0..<nat 5])"
  using uniform_zoom_in_perm [of 5]
  by (simp add: uniform_zoom_in_def resize_size_def upto_rec1 upto_empty)

text \<open>
  C28. \<open>UniformZoomOut::populate(size)\<close> with \<open>size \<ge> 0\<close> fills the data set with a
  permutation of \<open>0, ..., size - 1\<close>, for odd sizes and for even sizes, whose
  values are computed through \<open>double\<close> halves and truncating casts.
\<close>

theorem uniform_zoom_out_perm:
  assumes "0 \<le> sz"
  shows "\<exists>xs. uniform_zoom_out sz = Inr xs \<and> mset xs = mset (map real [0..<nat sz])"
proof -
  define h where "h = sz div 2"
  have h: "c_div sz 2 = h" "0 \<le> h" using assms by (simp_all add: h_def)
  have hs: "sz = 2 * h + sz mod 2" "sz mod 2 = 0 \<or> sz mod 2 = 1" by (auto simp: h_def)
  show ?thesis
  proof (cases "sz mod 2 = 0")
    case False
    let ?P = "concat (map (\<lambda>i. [(h + 1) + int i, (h - 1) - int i]) [0..<nat h])"
    have pd: "distinct ?P \<and> set ?P = {h + 1..<(h + 1) + int (nat h)} \<union> {(h - 1) - int (nat h)<..h - 1}"
      by (rule pairs_distinct_set) (use h in auto)
    have "[1..h] = map (\<lambda>i. 1 + int i) [0..<nat h]"
      using upto_shift_upt [of 1 "nat h"] h by simp
    then have eq: "uniform_zoom_out sz = Inr (map real_of_int (h # ?P))"
      using assms h False by (simp add: uniform_zoom_out_def resize_size_def map_concat comp_def algebra_simps)
    have "distinct (h # ?P) \<and> set (h # ?P) = {0..<sz}"
      using pd h hs False by auto
    then show ?thesis using eq mset_int_perm [of "h # ?P" "nat sz"] assms by auto
  next
    case True
    let ?P = "concat (map (\<lambda>i. [h + int i, (h - 1) - int i]) [0..<nat h])"
    have pd: "distinct ?P \<and> set ?P = {h..<h + int (nat h)} \<union> {(h - 1) - int (nat h)<..h - 1}"
      by (rule pairs_distinct_set) (use h in auto)
    have half: "real_of_int \<lceil>real_of_int sz / 2\<rceil> - 1 / 2 = real_of_int h - 1 / 2"
      using hs(1) True by (metis add_0_right ceiling_of_int nonzero_mult_div_cancel_left of_int_mult
        of_int_numeral zero_neq_numeral)
    have up: "trunc_cast (real_of_int h - 1 / 2 + 1 / 2) = h" by simp
    have v1: "trunc_cast (real_of_int h - 1 / 2 + real_of_int i + 1 / 2) = h + i" for i
      using trunc_cast_of_int [of "h + i"] by (simp add: algebra_simps)
    have v2: "trunc_cast (real_of_int h - 1 / 2 - real_of_int i - 1 / 2) = h - 1 - i" for i
      using trunc_cast_of_int [of "h - 1 - i"] by (simp add: algebra_simps)
    have w1: "trunc_cast (real_of_int h + real x) = h + int x" for x :: nat
      using trunc_cast_of_int [of "h + int x"] by simp
    have w2: "trunc_cast (real_of_int h - (1 + real x)) = h - 1 - int x" for x :: nat
      using trunc_cast_of_int [of "h - 1 - int x"] by (simp add: algebra_simps)
    have "[0..h - 1] = map (\<lambda>i. 0 + int i) [0..<nat h]"
      using upto_shift_upt [of 0 "nat h"] h by simp
    then have eq: "uniform_zoom_out sz = Inr (map real_of_int ?P)"
      using assms True by (simp add: uniform_zoom_out_def resize_size_def Let_def half up v1 v2
        map_concat comp_def algebra_simps w1 w2)
    have "distinct ?P \<and> set ?P = {0..<sz}"
      using pd h hs True by auto
    then show ?thesis using eq mset_int_perm [of ?P "nat sz"] assms by auto
  qed
qed

theorem uniform_zoom_out_perm_witness:
  "(0 :: int) \<le> 4 \<and> uniform_zoom_out 4 = Inr [2, 1, 3, 0] \<and>
   mset [2, 1, 3, 0 :: real] = mset (map real [0..<nat 4])"
  using uniform_zoom_out_perm [of 4]
  by (simp add: uniform_zoom_out_def resize_size_def trunc_cast_def upto_rec1 upto_empty)

text \<open>
  C29. \<open>NumberLineForward::populate(size)\<close> emits \<open>-n++\<close> from
  \<open>n = -size / 2 + 1\<close>, so its values strictly decrease, one below those of
  \<open>NumberLineBackward\<close> position by position: both "number line" data sets are
  descending, while every other \<open>*Forward\<close> data set ascends.
\<close>

theorem number_line_forward_descending:
  assumes "0 \<le> sz"
  shows "\<exists>xs ys. number_line_forward sz = Inr xs \<and> number_line_backward sz = Inr ys \<and>
           sorted_wrt (>) xs \<and> xs = map (\<lambda>v. v - 1) ys"
proof -
  let ?xs = "map (\<lambda>k. real_of_int (sz div 2) - 1 - real k) [0..<nat sz]"
  have f: "number_line_forward sz = Inr ?xs"
    using assms by (simp add: number_line_forward_def resize_size_def c_div_neg_two algebra_simps)
  have b: "number_line_backward sz = Inr (map (\<lambda>k. real_of_int (sz div 2) - real k) [0..<nat sz])"
    using assms by (simp add: number_line_backward_def resize_size_def)
  have "sorted_wrt (>) ?xs"
    by (simp add: sorted_wrt_map)
  then show ?thesis using f b by (auto simp: comp_def)
qed

theorem number_line_forward_descending_witness:
  "(0 :: int) \<le> 4 \<and> number_line_forward 4 = Inr [1, 0, - 1, - 2] \<and>
   number_line_backward 4 = Inr [2, 1, 0, - 1] \<and> sorted_wrt (>) [1, 0, - 1, - 2 :: real]"
  using number_line_forward_descending [of 4]
  by (simp add: number_line_forward_def number_line_backward_def resize_size_def c_div_def upt_rec)

text \<open>
  C30. \<open>EmptyDataSet::add_all\<close> inserts the values at the front of the data,
  \<open>add\<close> appends one value at the end.  The data differ in order, but
  \<open>quantile\<close>, \<open>rank\<close> and \<open>len\<close> answer after \<open>add_all(vs)\<close> as after adding
  the values of \<open>vs\<close> one by one: both queries sort a copy of the data first.
  \<open>sum\<close> is left out: \<open>std::accumulate\<close> on doubles depends on the order.
\<close>

lemma foldl_empty_add: "foldl empty_add d vs = d @ vs"
  by (induction vs arbitrary: d) (simp_all add: empty_add_def)

theorem add_all_queries_as_add:
  "dataset_quantile (empty_add_all d vs) q = dataset_quantile (foldl empty_add d vs) q \<and>
   dataset_rank (empty_add_all d vs) v = dataset_rank (foldl empty_add d vs) v \<and>
   dataset_len (empty_add_all d vs) = dataset_len (foldl empty_add d vs)"
proof -
  have m: "mset (empty_add_all d vs) = mset (foldl empty_add d vs)"
    by (simp add: empty_add_all_def foldl_empty_add)
  have s: "sort (empty_add_all d vs) = sort (foldl empty_add d vs)" using sort_mset_cong [OF m] .
  have l: "length (empty_add_all d vs) = length (foldl empty_add d vs)" using mset_eq_length [OF m] .
  have e: "empty_add_all d vs = [] \<longleftrightarrow> foldl empty_add d vs = []" using l by auto
  show ?thesis
    using s l e by (simp add: dataset_quantile_def dataset_rank_def dataset_len_def)
qed

end
