(* ===== verification/UniformSqrt.thy ===== *)
theory UniformSqrt
  imports DataSets
begin

text \<open>
  Termination and output of the \<open>UniformSqrt\<close> generator
  (\<^verbatim>\<open>src/unnamed/part_000\<close>, modelled as \<^const>\<open>DataSets.uniform_sqrt\<close>).
  Its outer \<open>while (emitted < size)\<close> loop is a \<open>partial_function (option)\<close>.
  Row \<open>r\<close> of the inner loop visits the items \<open>tri (r + j) + r\<close> for \<open>j < t - r\<close>
  (\<open>sqrt_item\<close>), one diagonal of the triangular numbering.  Rows \<open>0 .. t - 2\<close>
  therefore enumerate \<open>[0, tri t - 1)\<close> exactly once (\<open>sqrt_rows_set\<close>,
  \<open>sqrt_rows_distinct\<close>), and the last row counts upwards from \<open>tri t - 1\<close>.  So
  every value below \<open>size\<close> is written exactly once, the guard
  \<open>size <= emitted\<close> never fires, and the loop stops, for any \<open>t \<ge> 1\<close>.  That
  needs \<open>2 * size\<close> not to overflow; items and skips then stay below \<open>2^31\<close> too.
  When \<open>2 * size\<close> wraps, \<open>t\<close> is negative, no row has items, and the loop never
  stops (\<open>sqrt_outer_stuck\<close>, by \<open>sqrt_outer.raw_induct\<close>).
\<close>

subsection \<open>The enumeration order of the inner loop\<close>

fun sqrt_seq :: "nat \<Rightarrow> int \<Rightarrow> int \<Rightarrow> int list" where
  "sqrt_seq 0 item skip = []"
| "sqrt_seq (Suc c) item skip = item # sqrt_seq c (item + skip) (skip + 1)"

fun tri :: "nat \<Rightarrow> nat" where
  "tri 0 = 0"
| "tri (Suc k) = tri k + Suc k"

definition sqrt_item :: "nat \<Rightarrow> nat \<Rightarrow> nat" where
  "sqrt_item r j = tri (r + j + 1) - 1 - j"

definition sqrt_rows :: "nat \<Rightarrow> nat \<Rightarrow> nat list" where
  "sqrt_rows t i = concat (map (\<lambda>r. map (sqrt_item r) [0..<t - r]) [0..<i])"

subsection \<open>Properties\<close>

lemma sqrt_inner_emits:
  assumes "em + int (length (filter (\<lambda>x. x < sz) (sqrt_seq c item skip))) \<le> sz"
  shows "sqrt_inner c sz item skip em out =
    Inr (out @ map real_of_int (filter (\<lambda>x. x < sz) (sqrt_seq c item skip)),
         em + int (length (filter (\<lambda>x. x < sz) (sqrt_seq c item skip))))"
  using assms by (induction c arbitrary: item skip em out) auto

lemma tri_ge: "j \<le> k \<Longrightarrow> Suc j \<le> tri (Suc k)"
  by (induction k arbitrary: j) (auto simp: le_Suc_eq)

lemma sqrt_item_Suc: "sqrt_item r (Suc j) = sqrt_item r j + (r + j + 1)"
  using tri_ge [of j "r + j"] by (simp add: sqrt_item_def)

lemma sqrt_seq_row:
  "sqrt_seq c (int (sqrt_item r j)) (int (r + j) + 1) = map (\<lambda>k. int (sqrt_item r k)) [j..<j + c]"
proof (induction c arbitrary: j)
  case 0
  then show ?case by simp
next
  case (Suc c)
  have "sqrt_seq (Suc c) (int (sqrt_item r j)) (int (r + j) + 1) =
        int (sqrt_item r j) # sqrt_seq c (int (sqrt_item r (Suc j))) (int (r + Suc j) + 1)"
    by (simp add: sqrt_item_Suc algebra_simps)
  also have "\<dots> = map (\<lambda>k. int (sqrt_item r k)) [j..<j + Suc c]"
    using Suc [of "Suc j"] by (simp add: upt_rec)
  finally show ?case .
qed

lemma sqrt_item_eq: "sqrt_item r j = tri (r + j) + r"
  by (simp add: sqrt_item_def)

lemma tri_mono: "d < d' \<Longrightarrow> tri (Suc d) \<le> tri d'"
  by (induction d') (auto simp: less_Suc_eq)

lemma tri_band_unique:
  assumes "r \<le> d" "r' \<le> d'" "tri d + r = tri d' + r'"
  shows "d = d' \<and> r = r'"
proof -
  have "\<not> d < d'"
  proof
    assume "d < d'"
    then have "tri (Suc d) \<le> tri d'" by (rule tri_mono)
    then show False using assms by simp
  qed
  moreover have "\<not> d' < d"
  proof
    assume "d' < d"
    then have "tri (Suc d') \<le> tri d" by (rule tri_mono)
    then show False using assms by simp
  qed
  ultimately show ?thesis using assms by simp
qed

lemma tri_cover: "\<exists>d. tri d \<le> x \<and> x < tri (Suc d)"
proof (induction x)
  case 0
  show ?case by (rule exI [of _ 0]) simp
next
  case (Suc x)
  then obtain d where "tri d \<le> x" "x < tri (Suc d)" by blast
  then show ?case
    by (cases "Suc x < tri (Suc d)") (auto intro: exI [of _ "Suc d"] exI [of _ d])
qed

lemma distinct_concat_pairs:
  "distinct rs \<Longrightarrow> (\<And>r. distinct (f r)) \<Longrightarrow> distinct (concat (map (\<lambda>r. map (Pair r) (f r)) rs))"
  by (induction rs) (auto simp: distinct_map inj_on_def)

lemma sqrt_rows_pairs:
  "sqrt_rows t i = map (\<lambda>(r, j). sqrt_item r j) (concat (map (\<lambda>r. map (Pair r) [0..<t - r]) [0..<i]))"
  by (simp add: sqrt_rows_def map_concat comp_def)

lemma sqrt_item_inj:
  "inj_on (\<lambda>(r, j). sqrt_item r j) {(r, j). j < t - r}"
  by (auto simp: inj_on_def sqrt_item_eq dest: tri_band_unique [rotated 2])

lemma tri_le_mono: "a \<le> b \<Longrightarrow> tri a \<le> tri b"
  by (induction b) (auto simp: le_Suc_eq)

lemma tri_pred: "1 \<le> t \<Longrightarrow> tri t = tri (t - 1) + t"
  by (cases t) auto

lemma sqrt_rows_set:
  assumes t: "1 \<le> t"
  shows "set (sqrt_rows t (t - 1)) = {..<tri t - 1}"
proof (rule set_eqI, rule iffI)
  fix x assume "x \<in> set (sqrt_rows t (t - 1))"
  then obtain r j where rj: "r < t - 1" "j < t - r" "x = tri (r + j) + r"
    by (auto simp: sqrt_rows_def sqrt_item_eq)
  show "x \<in> {..<tri t - 1}"
  proof (cases "r + j < t - 1")
    case True
    then have "tri (Suc (r + j)) \<le> tri (t - 1)" by (rule tri_mono)
    then show ?thesis using rj tri_pred [OF t] t by simp
  next
    case False
    then have "r + j = t - 1" using rj by simp
    then show ?thesis using rj tri_pred [OF t] by simp
  qed
next
  fix x assume x: "x \<in> {..<tri t - 1}"
  obtain d where d: "tri d \<le> x" "x < tri (Suc d)" using tri_cover by blast
  have dt: "d < t"
  proof (rule ccontr)
    assume "\<not> d < t"
    then have "tri t \<le> tri d" by (simp add: tri_le_mono)
    then show False using d x by simp
  qed
  have r: "x - tri d < t - 1"
  proof (cases "d < t - 1")
    case True
    then show ?thesis using d by simp
  next
    case False
    then have "d = t - 1" using dt by simp
    then show ?thesis using d x tri_pred [OF t] by simp
  qed
  have "x = sqrt_item (x - tri d) (d - (x - tri d))"
    using d by (simp add: sqrt_item_eq)
  moreover have "d - (x - tri d) < t - (x - tri d)" using dt d by simp
  ultimately show "x \<in> set (sqrt_rows t (t - 1))"
    unfolding sqrt_rows_def using r
    by (auto intro!: bexI [of _ "x - tri d"] image_eqI [of _ _ "d - (x - tri d)"])
qed

lemma sqrt_rows_distinct: "distinct (sqrt_rows t i)"
proof -
  have "inj_on (\<lambda>(r, j). sqrt_item r j) (set (concat (map (\<lambda>r. map (Pair r) [0..<t - r]) [0..<i])))"
    by (rule inj_on_subset [OF sqrt_item_inj]) auto
  then show ?thesis
    by (simp add: sqrt_rows_pairs distinct_map distinct_concat_pairs)
qed

lemma distinct_range_len:
  assumes "distinct xs" "set xs \<subseteq> {0..<sz}" "0 \<le> sz"
  shows "int (length xs) \<le> sz"
proof -
  have "length xs = card (set xs)" using assms(1) by (simp add: distinct_card)
  also have "\<dots> \<le> card {0..<sz}" by (rule card_mono [OF finite_atLeastLessThan_int assms(2)])
  finally show ?thesis using assms(3) by simp
qed

lemma distinct_range_full:
  assumes "distinct xs" "set xs \<subseteq> {0..<sz}" "sz \<le> int (length xs)" "0 \<le> sz"
  shows "set xs = {0..<sz}"
proof (rule card_subset_eq)
  show "card (set xs) = card {0..<sz}"
    using assms distinct_range_len [OF assms(1,2,4)] by (simp add: distinct_card [symmetric])
qed (use assms(2) in auto)

lemma sqrt_outer_final:
  assumes "t - i = 1" "0 \<le> ii" "0 \<le> sz" "distinct os" "set os = {0..<min ii sz}" "em = int (length os)"
  shows "\<exists>os'. sqrt_outer sz t ii sk em i (map real_of_int os) = Some (Inr (map real_of_int os')) \<and>
              distinct os' \<and> set os' = {0..<sz}"
  using assms(2-)
proof (induction "nat (sz - ii)" arbitrary: ii em os rule: less_induct)
  case less
  have len: "em = min ii sz" using less.prems by (simp add: distinct_card [symmetric])
  show ?case
  proof (cases "em < sz")
    case True
    then have ii: "ii < sz" using len by simp
    have inner: "sqrt_inner (nat (t - i)) sz ii sk em (map real_of_int os) =
                 Inr (map real_of_int (os @ [ii]), em + 1)"
      using assms(1) True ii by (simp add: numeral_eq_Suc)
    have "\<exists>os'. sqrt_outer sz t (ii + 1) sk (em + 1) i (map real_of_int (os @ [ii])) =
                Some (Inr (map real_of_int os')) \<and> distinct os' \<and> set os' = {0..<sz}"
      by (rule less.hyps) (use less.prems ii in auto)
    then show ?thesis using True inner assms(1) by (subst sqrt_outer.simps) simp
  next
    case False
    then have "set os = {0..<sz}" using less.prems len by simp
    then show ?thesis using False less.prems by (subst sqrt_outer.simps) auto
  qed
qed

lemma sqrt_rows_Suc:
  "sqrt_rows t (Suc r) = sqrt_rows t r @ map (sqrt_item r) [0..<t - r]"
  by (simp add: sqrt_rows_def)

lemma sqrt_item_next_row: "int (sqrt_item r 0) + (int r + 1 + 1) = int (sqrt_item (Suc r) 0)"
  by (simp add: sqrt_item_eq)

lemma sqrt_emitted_distinct:
  "distinct (filter (\<lambda>x. x < sz) (map int (sqrt_rows t r)))"
  by (simp add: distinct_map sqrt_rows_distinct)

lemma sqrt_emitted_range:
  "set (filter (\<lambda>x. x < sz) (map int (sqrt_rows t r))) \<subseteq> {0..<sz}"
  by auto

lemma tri_pos: "1 \<le> t \<Longrightarrow> 1 \<le> tri t"
  by (cases t) auto

lemma sqrt_emitted_last_row:
  assumes "1 \<le> T"
  shows "set (filter (\<lambda>x. x < sz) (map int (sqrt_rows T (T - 1)))) = {0..<min (int (tri T) - 1) sz}"
proof -
  have "int ` {..<tri T - 1} = {0..<int (tri T) - 1}"
    using image_int_atLeastLessThan [of 0 "tri T - 1"] tri_pos [OF assms]
    by (simp add: lessThan_atLeast0 of_nat_diff)
  then show ?thesis using sqrt_rows_set [OF assms] by auto
qed

lemma sqrt_emitted_bound:
  assumes "0 \<le> sz"
  shows "int (length (filter (\<lambda>x. x < sz) (map int (sqrt_rows t r)))) \<le> sz"
  by (rule distinct_range_len [OF sqrt_emitted_distinct sqrt_emitted_range assms])

lemma sqrt_outer_rows:
  assumes "1 \<le> T" "r \<le> T - 1" "0 \<le> sz"
  defines "os \<equiv> filter (\<lambda>x. x < sz) (map int (sqrt_rows T r))"
  shows "\<exists>os'. sqrt_outer sz (int T) (int (sqrt_item r 0)) (int r + 1) (int (length os)) (int r)
                 (map real_of_int os) = Some (Inr (map real_of_int os')) \<and> distinct os' \<and> set os' = {0..<sz}"
  using assms(2) unfolding os_def
proof (induction "T - 1 - r" arbitrary: r)
  case 0
  then have r: "r = T - 1" by simp
  have ii: "int (sqrt_item r 0) = int (tri T) - 1"
    using tri_pred [OF assms(1)] r assms(1) by (simp add: sqrt_item_eq of_nat_diff)
  have ti: "int T - int r = 1" using r assms(1) by simp
  show ?case
    unfolding ii
    by (rule sqrt_outer_final [OF ti])
       (use assms(1,3) tri_pos [OF assms(1)] r sqrt_emitted_last_row [OF assms(1)] in
        \<open>simp_all add: sqrt_emitted_distinct\<close>)
next
  case (Suc k)
  define os where "os = filter (\<lambda>x. x < sz) (map int (sqrt_rows T r))"
  define row where "row = filter (\<lambda>x. x < sz) (map (\<lambda>j. int (sqrt_item r j)) [0..<T - r])"
  have os': "filter (\<lambda>x. x < sz) (map int (sqrt_rows T (Suc r))) = os @ row"
    by (simp add: os_def row_def sqrt_rows_Suc comp_def)
  have bound: "int (length os) + int (length row) \<le> sz"
    using sqrt_emitted_bound [OF assms(3), of T "Suc r"] unfolding os' by simp
  show ?case
  proof (cases "int (length os) < sz")
    case True
    have seq: "sqrt_seq (T - r) (int (sqrt_item r 0)) (int r + 1) = map (\<lambda>j. int (sqrt_item r j)) [0..<T - r]"
      using sqrt_seq_row [of "T - r" r 0] by simp
    have tr: "nat (int T - int r) = T - r" by simp
    have inner: "sqrt_inner (nat (int T - int r)) sz (int (sqrt_item r 0)) (int r + 1) (int (length os))
                   (map real_of_int os) = Inr (map real_of_int (os @ row), int (length (os @ row)))"
      unfolding tr using sqrt_inner_emits [of "int (length os)" sz "T - r" "int (sqrt_item r 0)" "int r + 1"] bound
      by (simp add: seq row_def)
    have step: "\<exists>os'. sqrt_outer sz (int T) (int (sqrt_item (Suc r) 0)) (int (Suc r) + 1) (int (length (os @ row)))
                 (int (Suc r)) (map real_of_int (os @ row)) = Some (Inr (map real_of_int os')) \<and>
                 distinct os' \<and> set os' = {0..<sz}"
      using Suc.hyps(1) [of "Suc r"] Suc.hyps(2) unfolding os' by simp
    have lt: "1 < int T - int r" using Suc.hyps(2) by simp
    show ?thesis
      unfolding os_def [symmetric]
      by (subst sqrt_outer.simps)
         (use True inner lt step in \<open>simp add: sqrt_item_next_row [symmetric] ac_simps\<close>)
  next
    case False
    then have "set os = {0..<sz}"
      using distinct_range_full [OF sqrt_emitted_distinct sqrt_emitted_range _ assms(3)] os_def by simp
    moreover have "sqrt_outer sz (int T) (int (sqrt_item r 0)) (int r + 1) (int (length os)) (int r)
                     (map real_of_int os) = Some (Inr (map real_of_int os))"
      using False by (subst sqrt_outer.simps) simp
    moreover have "distinct os" using sqrt_emitted_distinct os_def by simp
    ultimately show ?thesis unfolding os_def [symmetric] by blast
  qed
qed

lemma isqrt_from_ge: "k \<le> isqrt_from n k"
proof (induction n k rule: isqrt_from.induct)
  case (1 n k)
  show ?case
    unfolding isqrt_from.simps [of n k] using 1 by (auto simp del: isqrt_from.simps intro: Suc_leD)
qed

lemma isqrt_zero: "isqrt n = 0 \<Longrightarrow> n = 0"
  using isqrt_from_ge [of 1 n] unfolding isqrt_def isqrt_from.simps [of n 0]
  by (simp del: isqrt_from.simps split: if_splits)

lemma isqrt_from_spec:
  "k * k \<le> n \<Longrightarrow> isqrt_from n k * isqrt_from n k \<le> n \<and> n < Suc (isqrt_from n k) * Suc (isqrt_from n k)"
proof (induction n k rule: isqrt_from.induct)
  case (1 n k)
  show ?case
    unfolding isqrt_from.simps [of n k] using 1 by (auto simp del: isqrt_from.simps)
qed

lemma isqrt_floor_sqrt: "isqrt n = nat \<lfloor>sqrt (real n)\<rfloor>"
proof -
  define m where "m = isqrt n"
  have m: "m * m \<le> n" "n < Suc m * Suc m"
    using isqrt_from_spec [of 0 n] by (simp_all add: m_def isqrt_def)
  have s1: "sqrt (real (m * m)) = real m" by simp
  have "real (Suc m * Suc m) = (real m + 1) * (real m + 1)" by (simp add: algebra_simps)
  then have s2: "sqrt (real (Suc m * Suc m)) = real m + 1"
    by (simp only: real_sqrt_mult_self) simp
  have "real (m * m) \<le> real n" using m(1) by (simp only: of_nat_le_iff)
  then have "real m \<le> sqrt (real n)"
    using real_sqrt_le_mono unfolding s1 [symmetric] by blast
  have "real n < real (Suc m * Suc m)" using m(2) by (simp only: of_nat_less_iff)
  then have "sqrt (real n) < real m + 1"
    using real_sqrt_less_mono unfolding s2 [symmetric] by blast
  with \<open>real m \<le> sqrt (real n)\<close> have "\<lfloor>sqrt (real n)\<rfloor> = int m"
    by (intro floor_unique) simp_all
  then show ?thesis by (simp add: m_def)
qed


lemma int32_wrap_id: "0 \<le> x \<Longrightarrow> x \<le> int32_max \<Longrightarrow> int32_wrap x = x"
  unfolding int32_wrap_def int32_max_def by (subst mod_pos_pos_trivial) simp_all

lemma int32_wrap_double_neg: "2 ^ 30 \<le> sz \<Longrightarrow> sz \<le> int32_max \<Longrightarrow> int32_wrap (2 * sz) < 0"
proof -
  assume a: "2 ^ 30 \<le> sz" "sz \<le> int32_max"
  define y :: int where "y = 2 * sz - 2 ^ 31"
  have e: "2 * sz + 2 ^ 31 = y + 2 ^ 32" by (simp add: y_def)
  have y: "0 \<le> y" "y < 2 ^ 32" "y < 2 ^ 31" using a by (simp_all add: y_def int32_max_def)
  have "(2 * sz + 2 ^ 31) mod 2 ^ 32 = y"
    unfolding e mod_add_self2 using y by (intro mod_pos_pos_trivial) simp_all
  then show ?thesis using y(3) by (simp add: int32_wrap_def)
qed

lemma uniform_sqrt_small:
  assumes "0 \<le> sz" "2 * sz \<le> int32_max"
  shows "uniform_sqrt sz = sqrt_outer sz (int (isqrt (2 * nat sz))) 0 1 0 0 []"
proof -
  have "cast_sqrt (int32_wrap (2 * sz)) = int (isqrt (2 * nat sz))"
    using assms by (simp add: int32_wrap_id cast_sqrt_def nat_mult_distrib)
  then show ?thesis using assms(1) by (simp add: uniform_sqrt_def resize_size_def)
qed

text \<open>
  A row count \<open>t - i \<le> 0\<close> makes the inner loop empty, so \<open>emitted\<close> never grows
  and the outer loop only increments \<open>initial_item\<close>: the run does not end.
\<close>

lemma sqrt_outer_stuck:
  assumes "t \<le> i" "em < sz"
  shows "sqrt_outer sz t ii sk em i out = None"
proof -
  have "sqrt_outer sz t ii sk em i out = Some r \<Longrightarrow> \<not> (t \<le> i \<and> em < sz)" for r
  proof (rule sqrt_outer.raw_induct [where P = "\<lambda>sz t ii sk em i out r. \<not> (t \<le> i \<and> em < sz)"])
    fix f sz t ii sk em i out r
    assume IH: "\<And>sz t ii sk em i out r. f sz t ii sk em i out = Some r \<Longrightarrow> \<not> (t \<le> i \<and> em < sz)"
      and eq: "(if em < sz then
                  (case sqrt_inner (nat (t - i)) sz ii sk em out of
                     Inl e \<Rightarrow> Some (Inl e)
                   | Inr (out', emitted') \<Rightarrow>
                       (if 1 < t - i then f sz t (ii + (sk + 1)) (sk + 1) emitted' (i + 1) out'
                        else f sz t (ii + 1) sk emitted' i out'))
                else Some (Inr out)) = Some r"
    show "\<not> (t \<le> i \<and> em < sz)"
    proof
      assume st: "t \<le> i \<and> em < sz"
      then have "f sz t (ii + 1) sk em i out = Some r" using eq by simp
      then show False using IH st by blast
    qed
  qed
  then show ?thesis using assms by (cases "sqrt_outer sz t ii sk em i out") auto
qed

text \<open>C31 (termination): for every size from 0 up to \<open>2^30 - 1\<close>, where \<open>2 * size\<close>
  does not overflow, \<open>UniformSqrt::populate\<close> returns:
  its outer loop ends (the result is \<open>Some\<close>), the vector-write guard never fires
  (the result is \<open>Inr\<close>), and the data set is a permutation of \<open>0, ..., size - 1\<close>.\<close>

theorem uniform_sqrt_terminates:
  assumes "0 \<le> sz" "2 * sz \<le> int32_max"
  shows "\<exists>xs. uniform_sqrt sz = Some (Inr xs) \<and> mset xs = mset (map real [0..<nat sz])"
proof (cases "isqrt (2 * nat sz) = 0")
  case True
  have "sz = 0" using isqrt_zero [OF True] assms by simp
  then show ?thesis
    unfolding uniform_sqrt_small [OF assms] by (subst sqrt_outer.simps) simp
next
  case False
  then have "\<exists>os. sqrt_outer sz (int (isqrt (2 * nat sz))) 0 1 0 0 [] = Some (Inr (map real_of_int os)) \<and>
      distinct os \<and> set os = {0..<sz}"
    using sqrt_outer_rows [of "isqrt (2 * nat sz)" 0 sz] assms by (simp add: sqrt_item_eq sqrt_rows_def)
  then obtain os where os: "sqrt_outer sz (int (isqrt (2 * nat sz))) 0 1 0 0 [] = Some (Inr (map real_of_int os))"
      "distinct os" "set os = {0..<sz}"
    by blast
  have "set os = set (map int [0..<nat sz])"
    using os(3) image_atLeastZeroLessThan_int [OF assms(1)] by (simp add: lessThan_atLeast0)
  moreover have "distinct (map int [0..<nat sz])" by (simp add: distinct_map)
  ultimately have "mset os = mset (map int [0..<nat sz])"
    using set_eq_iff_mset_eq_distinct [OF os(2)] by blast
  moreover have "map real_of_int (map int [0..<nat sz]) = map real [0..<nat sz]" by simp
  ultimately have "mset (map real_of_int os) = mset (map real [0..<nat sz])"
    by (metis mset_map)
  then show ?thesis using os(1) by (simp add: uniform_sqrt_small [OF assms])
qed

theorem uniform_sqrt_terminates_witness:
  "0 \<le> (5::int) \<and> 2 * 5 \<le> int32_max \<and>
   (\<exists>xs. uniform_sqrt 5 = Some (Inr xs) \<and> mset xs = mset (map real [0..<nat 5]))"
  using uniform_sqrt_terminates [of 5] by (simp add: int32_max_def)

text \<open>C32 (liveness): for a size from \<open>2^30\<close> up to \<open>INT_MAX\<close>, \<open>2 * size\<close> wraps to a
  negative \<open>int\<close>, \<open>t\<close> is the conversion of a NaN (\<open>INT_MIN\<close> on x86), the inner
  loop never runs and \<open>UniformSqrt::populate\<close> does not return.\<close>

theorem uniform_sqrt_overflow_diverges:
  assumes "2 ^ 30 \<le> sz" "sz \<le> int32_max"
  shows "uniform_sqrt sz = None"
proof -
  have t: "cast_sqrt (int32_wrap (2 * sz)) = int32_min"
    using int32_wrap_double_neg [OF assms] by (simp add: cast_sqrt_def)
  have "sqrt_outer sz int32_min 0 1 0 0 [] = None"
    using assms(1) by (intro sqrt_outer_stuck) (simp_all add: int32_min_def)
  then show ?thesis using assms(1) t by (simp add: uniform_sqrt_def resize_size_def)
qed

theorem uniform_sqrt_overflow_diverges_witness:
  "uniform_sqrt (2 ^ 30) = None"
  using uniform_sqrt_overflow_diverges [of "2 ^ 30"] by (simp add: int32_max_def)

end
