(* ===== verification/Spec2Isabelle.thy ===== *)
theory Spec2Isabelle
  imports Sketch HighestCollapse UniformSqrt
begin

text \<open>
  \<^bold>\<open>DDSketch in Isabelle/HOL.\<close>  A shallow embedding of the C++ DDSketch library of
  this repository (src/includes/ddsketch/ddsketch.h): a quantile sketch with relative
  accuracy \<open>\<alpha>\<close>, made of a key mapping, two bin stores and a zero counter.

  \<^bold>\<open>Parts and how they interact.\<close>
  \<^item> The \<^emph>\<open>key mapping\<close> (\<open>KeyMapping\<close> and its subclasses \<open>LogarithmicMapping\<close>,
    \<open>LinearlyInterpolatedMapping\<close>, \<open>CubicallyInterpolatedMapping\<close>) turns a positive
    value into an integer key, \<open>key(v) = \<lceil>log\<^sub>\<gamma> v\<rceil> + offset\<close> cast to \<open>Index\<close>, and a key
    back into a representative value \<open>value(k)\<close>.  Theory \<open>KeyMapping\<close>: the record
    \<open>key_mapping\<close> holds the data members, the subclass is \<open>mapping_kind\<close>, the
    constructors are \<open>key_mapping_init\<close> and \<open>new_*_mapping\<close>, the virtual
    \<open>log_gamma\<close>/\<open>pow_gamma\<close> dispatch on the kind, \<open>mapping_key\<close>/\<open>mapping_value\<close>
    are \<open>key\<close>/\<open>value\<close>.
  \<^item> \<open>BinList\<close>, a \<open>std::deque\<close> of counters, is a \<open>real list\<close> (theory \<open>BinList\<close>);
    each unchecked deque access returns \<open>Inl OutOfRange\<close> where the C++ is undefined.
  \<^item> The \<^emph>\<open>dense store\<close> \<open>BaseDenseStore\<close> (theory \<open>DenseStore\<close>) is the record
    \<open>dense_store\<close> of its data members with \<open>add\<close>, \<open>extend_range\<close>, \<open>adjust\<close>,
    \<open>center_bins\<close>, \<open>shift_bins\<close>, \<open>get_index\<close>, \<open>key_at_rank\<close>, \<open>merge\<close>, \<open>copy\<close>; the
    virtual methods the collapsing stores override are parameters of
    \<open>extend_range\<close> and \<open>store_add\<close>.
  \<^item> The \<^emph>\<open>collapsing stores\<close> (theory \<open>CollapsingStore\<close>) extend the record with
    \<open>bin_limit\<close> and \<open>is_collapsed\<close> and define the lowest/highest overrides of
    \<open>get_new_length\<close>, \<open>adjust\<close>, \<open>get_index\<close>, \<open>copy\<close> and \<open>merge\<close>.
    Theory \<open>LowestCollapse\<close> holds the invariant \<open>lowest_inv\<close> of the
    collapsing-lowest store, the contract \<open>adj_pre\<close>/\<open>adj_post\<close> of its \<open>adjust\<close>,
    and \<open>clamp_count\<close>, the tests' oracle (\<open>normalize_smaller_values\<close>, then
    \<open>Counter\<close>, in CollapsingLowestDenseStoreTest); theory \<open>HighestCollapse\<close> holds
    the mirror image for the collapsing-highest store (\<open>highest_inv\<close>,
    \<open>hadj_pre\<close>/\<open>hadj_post\<close>, \<open>clamp_high_count\<close>).
  \<^item> The \<^emph>\<open>data sets\<close> of the tests (test/datasets.h, here src/unnamed/part_000;
    theory \<open>DataSets\<close>) are lists of values: the queries \<open>len\<close>, \<open>rank\<close>,
    \<open>quantile\<close>, \<open>sum\<close>, \<open>avg\<close> that \<open>evaluate_sketch_accuracy\<close> compares a sketch
    with, \<open>EmptyDataSet\<close>'s \<open>add\<close>/\<open>add_all\<close>, and \<open>populate\<close> of every deterministic
    generator (\<open>UniformForward\<close> to \<open>Constant\<close>); \<open>UniformSqrt\<close>'s \<open>while\<close> loop is a
    \<open>partial_function (option)\<close>, and theory \<open>UniformSqrt\<close> proves that it returns.
  \<^item> The \<^emph>\<open>sketch\<close> \<open>BaseDDSketch<Store, Mapping>\<close> (theory \<open>Sketch\<close>) is the record
    \<open>ddsketch\<close> over the store type; the store methods it calls through the CRTP
    \<open>BaseStore\<close> interface are the record \<open>store_ops\<close>, instantiated by \<open>dense_ops\<close>,
    \<open>lowest_ops\<close>, \<open>highest_ops\<close>.  \<open>sketch_add\<close> routes a value to the positive store,
    the negative store or the zero counter by comparing with \<open>min_possible\<close>;
    \<open>get_quantile_value\<close> turns a quantile into a rank and asks a store's
    \<open>key_at_rank\<close>, then the mapping's \<open>value\<close>; \<open>sketch_merge\<close> merges the stores.
    \<open>new_ddsketch\<close> and \<open>new_log_collapsing_*_ddsketch\<close> are the three constructors.
  \<^item> \<open>DDS_Prelude\<close> holds the shared types (\<open>real_value\<close>, \<open>index\<close>), the error type
    (\<open>IllegalArgumentException\<close>, \<open>UnequalSketchParametersException\<close>,
    \<open>std::invalid_argument\<close>, out-of-range access, the \<open>std::length_error\<close> of
    \<open>vector::resize\<close>), the bind \<open>res_bind\<close> on
    \<open>error + 'a\<close>, C's truncating \<open>c_div\<close> and \<open>trunc_cast\<close>, and list lemmas.

  \<^bold>\<open>Modelling choices.\<close>  \<open>double\<close> is \<open>real\<close> (rounding is not modelled).  \<open>Index\<close>
  (\<open>int64_t\<close>) is \<open>int\<close>, with its limits \<open>int64_min\<close>/\<open>int64_max\<close> as the
  empty-store sentinels; theorems that add keys assume them within those limits.
  The store's \<open>Index\<close> arithmetic is unbounded in the model, so every theorem about
  a store restricts keys to where the C++ does not wrap.  On the dense store that
  is any key span the store could allocate bins for.  On the collapsing stores it
  is \<open>collapse_safe\<close>: keys of magnitude at most \<open>2^40\<close> and a limit below \<open>2^31\<close>.
  A signed length passed to a container as \<open>size_t\<close> is \<open>size_t_length\<close>:
  negative is \<open>std::length_error\<close>.  Every loop of the header is structural
  recursion over a list (\<open>key_at_rank_loop\<close>, \<open>merge_bins_loop\<close>), so no fuel is
  needed and every operation is total and executable.  The one loop whose end is
  not evident, \<open>UniformSqrt\<close>'s \<open>while\<close>, is a \<open>partial_function (option)\<close>
  (\<open>None\<close>: it does not return).  Its \<open>int\<close> product \<open>2 * size\<close> wraps as in C++
  (\<open>int32_wrap\<close>).  \<open>static_cast<int>(std::sqrt(m))\<close> is the integer square root
  \<open>isqrt\<close> for \<open>m \<ge> 0\<close> (\<open>isqrt_floor_sqrt\<close>).  For \<open>m < 0\<close> it converts a NaN, which
  is undefined; the model takes x86's \<open>INT_MIN\<close>.  \<open>NaN\<close> query results are \<open>None\<close>.
  Methods that write to a store return the updated record.

  \<^bold>\<open>What is proved.\<close>
  \<^item> Dense store (C1--C5): \<open>add\<close> and \<open>merge\<close> refine the abstract counter map
    \<open>bin_count\<close> (add the weight at the key; add the two maps) and keep the invariant
    \<open>dense_wf\<close>; runs of adds keep \<open>count = sum bins\<close>; merge equals replaying the
    adds; \<open>key_at_rank\<close> equals a reference definition by \<open>find\<close>.
  \<^item> Collapsing stores (C6--C7): \<open>bin_limit < 0\<close> makes the first \<open>add\<close> throw
    \<open>std::length_error\<close>, and \<open>bin_limit = 0\<close> makes it access an empty deque.
    Lemmas evaluated by \<open>code_simp\<close> on concrete stores back the findings on
    \<open>merge\<close> (both overrides read the receiver's bins and lose weight; a wider
    limit is undefined or throws).
  \<^item> Mappings (C8--C11): the logarithmic mapping's relative accuracy for integral
    offsets; \<open>key(1)\<close> for every mapping (the truncating cast); the linear
    interpolation round trip; constructor errors.  Concrete lemmas back the
    findings on a negative and a fractional offset.
  \<^item> Sketch (C12--C19): \<open>DDSketch\<close> passes the tests' \<open>evaluate_sketch_accuracy\<close>
    on positive inputs: each quantile within relative error \<open>a\<close> of the data
    set's \<open>quantile\<close>, and \<open>num_values\<close>, \<open>sum\<close>, \<open>avg\<close> equal to the data set's
    (below, composing all parts); \<open>add\<close> and \<open>merge\<close> keep the sketch invariant for
    any store meeting the interface contract (\<open>add_contract\<close>, \<open>merge_contract\<close>,
    \<open>copy_contract\<close>), which the dense store discharges; merge on dense stores adds
    the counters; the error paths of \<open>add\<close>, \<open>merge\<close> and \<open>get_quantile_value\<close>; and,
    for any run of non-positive values, \<open>min_\<close> tracks them while \<open>max_\<close> stays at
    the smallest positive double.
  \<^item> Bounded stores through the sketch (C20--C22): with a positive \<open>bin_limit\<close> the
    first \<open>add\<close> on either collapsing store returns within the limit, and both
    collapsing sketches always build their stores with a positive limit.
  \<^item> Collapse correctness (C23, theory \<open>LowestCollapse\<close>).  A run of adds on a new
    collapsing-lowest store, with positive limit and \<open>collapse_safe\<close> keys,
    returns a store within its limit that keeps the invariant and the total
    weight.  Its counters are \<open>clamp_count\<close>: keys below
    \<open>max_key - bin_limit + 1\<close> are summed into that key.  Each branch of \<open>adjust\<close>
    (centre, wipe, shift right, collapse then shift left) is one lemma against the
    contract.  \<open>extend_range\<close>, \<open>get_index\<close> and \<open>add\<close> compose them, and the run
    follows by induction with the added keys as history.  C24 (theory
    \<open>HighestCollapse\<close>) is the same for the collapsing-highest store: keys above
    \<open>min_key + bin_limit - 1\<close> are summed into that key.  There a collapsed window
    also fills all \<open>bin_limit\<close> bins, which \<open>get_index\<close> needs to send a key above
    it to the last bin.
  \<^item> Data sets (C25--C30, theory \<open>DataSets\<close>): \<open>rank\<close> inverts \<open>quantile\<close> on
    distinct data; \<open>quantile\<close> fails exactly on an empty set or an index outside
    the vector; \<open>UniformZoomIn\<close> and \<open>UniformZoomOut\<close> produce permutations of
    \<open>0..size-1\<close>; \<open>NumberLineForward\<close> produces descending values, like
    \<open>NumberLineBackward\<close>; \<open>add_all\<close>, which inserts at the front, answers
    \<open>quantile\<close>, \<open>rank\<close> and \<open>len\<close> as adding the values one by one does.
  \<^item> \<open>UniformSqrt\<close> (C31--C32, theory \<open>UniformSqrt\<close>).  For \<open>0 \<le> size < 2^30\<close> the
    outer loop ends, the guard on the vector index never fires, and the data set
    is a permutation of \<open>0..size-1\<close>.  For \<open>2^30 \<le> size \<le> INT_MAX\<close>, \<open>2 * size\<close>
    wraps and the loop never ends.  The first proof reads row \<open>r\<close> of the inner
    loop as the items \<open>tri (r + j) + r\<close> of the diagonals of the triangular
    numbering: the rows enumerate an initial segment of the naturals exactly once,
    and the last row counts on from there.  The second is \<open>raw_induct\<close> of the
    partial function: with no rows left, \<open>emitted\<close> never grows.

  \<^bold>\<open>Not modelled.\<close>  Floating-point rounding; memory exhaustion (\<open>std::bad_alloc\<close>); \<open>to_string\<close>/\<open>operator<<\<close> and \<open>name()\<close>
  (printing only); the data-set generators that draw from \<open>std::mt19937\<close>
  distributions (Exponential, Lognormal, Normal, Laplace, Bimodal, Mixed, Trimodal,
  Integers: their values are random); the test driver (it only feeds values and
  quantiles to the sketch; its scenarios appear as theorems); the Makefile and the
  README (src/unnamed/part_001, part_002).  The accuracy of the linearly and
  cubically interpolated mappings and the accuracy on negative values are not
  proved.
\<close>

section \<open>Properties that span the components\<close>

text \<open>
  C12. Quantile accuracy of \<open>DDSketch\<close>, as the tests' \<open>evaluate_sketch_accuracy\<close>
  checks it: after adding the positive values \<open>xs\<close> of a data set (unit weights,
  keys within \<open>Index\<close>) to a new \<open>DDSketch(a)\<close>, every call \<open>get_quantile_value(q)\<close>
  with \<open>0 \<le> q \<le> 1\<close> returns a value within relative error \<open>a\<close> of the data set's
  \<open>quantile(q)\<close>, the element of rank \<open>\<lfloor>q (n - 1)\<rfloor>\<close> of the sorted input; and
  \<open>num_values()\<close>, \<open>sum()\<close> and \<open>avg()\<close> equal the data set's \<open>len()\<close>, \<open>sum()\<close> and
  \<open>avg()\<close>.  This composes the mapping (keys are monotone, each key's value is
  within \<open>a\<close> of its values), the dense store (adds keep the counters),
  \<open>key_at_rank\<close> (it finds the key of that element) and the data set's queries.
\<close>

theorem ddsketch_quantile_accuracy:
  assumes s: "new_ddsketch a = Inr s" and ne: "xs \<noteq> []"
    and pos: "\<forall>x\<in>set xs. min_possible (sketch_mapping s) < x \<and>
       int64_min \<le> mapping_key (sketch_mapping s) x \<and> mapping_key (sketch_mapping s) x \<le> int64_max"
    and q: "0 \<le> q" "q \<le> 1"
  shows "\<exists>s' y x. sketch_add_all dense_ops s (map (\<lambda>x. (x, 1)) xs) = Inr s' \<and>
     get_quantile_value dense_ops s' q = Some y \<and> dataset_quantile xs q = Inr x \<and> \<bar>y - x\<bar> \<le> a * \<bar>x\<bar> \<and>
     sketch_count s' = real (dataset_len xs) \<and> sketch_sum s' = dataset_sum xs \<and> avg s' = dataset_avg xs"
proof -
  let ?m = "sketch_mapping s"
  let ?r = "q * (real (length xs) - 1)"
  let ?y = "sort xs ! nat \<lfloor>?r\<rfloor>"
  have m: "new_logarithmic_mapping a (real_of_int 0) = Inr ?m"
    using new_ddsketch_eq(1) [OF s] by simp
  have mp: "0 < min_possible ?m" by (rule log_mapping_min_possible_pos [OF m])
  have wf0: "sketch_wf dense_ops dense_inv s"
    using new_ddsketch_eq(2) [OF s] new_dense_sketch_wf by metis
  have s0: "store s = new_dense_store kChunkSize" "negative_store s = new_dense_store kChunkSize"
      "zero_count s = 0" "sketch_count s = 0" "sketch_sum s = 0"
    by (subst new_ddsketch_eq(2) [OF s], simp)+
  obtain s' where s': "sketch_add_all dense_ops s (map (\<lambda>x. (x, 1)) xs) = Inr s'"
      "sketch_wf dense_ops dense_inv s'" "sketch_mapping s' = ?m"
      "negative_store s' = new_dense_store kChunkSize" "zero_count s' = 0"
      "sketch_count s' = real (length xs)" "sketch_sum s' = sum_list xs"
      "bin_count (store s') = (\<lambda>k. real (count_list (map (mapping_key ?m) xs) k))"
    using dense_add_all_positive [OF wf0 pos] s0 by auto
  have st: "dense_wf (store s')" "nonneg_bins (store s')"
    using s'(2) by (simp_all add: sketch_wf_def dense_inv_def)
  have xpos: "0 < x" if "x \<in> set xs" for x
    using pos that mp by force
  have mono: "mapping_key ?m x \<le> mapping_key ?m y" if "x \<in> set xs" "y \<in> set xs" "x \<le> y" for x y
    using log_mapping_key_mono [OF m xpos [OF that(1)] that(3)] .
  have n: "0 < length xs" using ne by simp
  have r: "0 \<le> ?r" "?r < real (length xs)"
  proof -
    have "1 \<le> real (length xs)" using n by linarith
    then have "q * (real (length xs) - 1) \<le> 1 * (real (length xs) - 1)"
      using q by (intro mult_right_mono) simp_all
    then show "0 \<le> ?r" "?r < real (length xs)"
      using q \<open>1 \<le> real (length xs)\<close> by simp_all
  qed
  have key: "key_at_rank (store s') ?r True = mapping_key ?m ?y"
    by (rule store_key_at_rank_sorted [OF st s'(8) mono r])
  have gq: "get_quantile_value dense_ops s' q = Some (mapping_value ?m (mapping_key ?m ?y))"
    using q n r(1) s'(3-6) key by (simp add: get_quantile_value_def dense_ops_def Let_def)
  have "nat \<lfloor>?r\<rfloor> < length xs"
    using r by (simp add: nat_less_iff floor_less_iff)
  then have "?y \<in> set xs"
    by (metis length_sort nth_mem set_sort)
  note b = log_mapping_bracket [OF m xpos [OF this]]
  have acc: "\<bar>mapping_value ?m (mapping_key ?m ?y) - ?y\<bar> \<le> a * \<bar>?y\<bar>"
    using accuracy_of_bracket [OF b(4,5,2,3)] xpos [OF \<open>?y \<in> set xs\<close>] unfolding b(1) by simp
  have dq: "dataset_quantile xs q = Inr ?y"
    by (rule dataset_quantile_unit [OF ne q])
  have stats: "sketch_count s' = real (dataset_len xs)" "sketch_sum s' = dataset_sum xs"
      "avg s' = dataset_avg xs"
    using s'(6,7) n by (simp_all add: dataset_len_def dataset_sum_eq avg_def dataset_avg_def)
  show ?thesis using s'(1) gq acc dq stats by blast
qed

theorem ddsketch_quantile_accuracy_witness:
  "let s = new_base_ddsketch
      \<lparr>mapping_kind = Logarithmic, relative_accuracy = 1/2, mapping_offset = 0, gamma = 3,
       min_possible = dbl_min * 3, max_possible = dbl_max / 3, multiplier = 1 / ln 3 * ln 2\<rparr>
      (new_dense_store kChunkSize) (new_dense_store kChunkSize)
   in new_ddsketch (1/2) = Inr s \<and> [1, 1] \<noteq> ([] :: real list) \<and>
      (\<forall>x\<in>set [1, 1 :: real]. min_possible (sketch_mapping s) < x \<and>
         int64_min \<le> mapping_key (sketch_mapping s) x \<and> mapping_key (sketch_mapping s) x \<le> int64_max) \<and>
      (0 :: real) \<le> 1/2 \<and> (1/2 :: real) \<le> 1 \<and>
      (\<exists>s' y x. sketch_add_all dense_ops s (map (\<lambda>x. (x, 1)) [1, 1]) = Inr s' \<and>
         get_quantile_value dense_ops s' (1/2) = Some y \<and> dataset_quantile [1, 1] (1/2) = Inr x \<and>
         \<bar>y - x\<bar> \<le> 1/2 * \<bar>x\<bar> \<and> sketch_count s' = real (dataset_len [1, 1]) \<and>
         sketch_sum s' = dataset_sum [1, 1] \<and> avg s' = dataset_avg [1, 1])"
proof -
  let ?s = "new_base_ddsketch
      \<lparr>mapping_kind = Logarithmic, relative_accuracy = 1/2, mapping_offset = 0, gamma = 3,
       min_possible = dbl_min * 3, max_possible = dbl_max / 3, multiplier = 1 / ln 3 * ln 2\<rparr>
      (new_dense_store kChunkSize) (new_dense_store kChunkSize)"
  have h: "new_ddsketch (1/2) = Inr ?s" "[1, 1] \<noteq> ([] :: real list)"
    "\<forall>x\<in>set [1, 1 :: real]. min_possible (sketch_mapping ?s) < x \<and>
         int64_min \<le> mapping_key (sketch_mapping ?s) x \<and> mapping_key (sketch_mapping ?s) x \<le> int64_max"
    "(0 :: real) \<le> 1/2" "(1/2 :: real) \<le> 1"
    by (simp_all add: new_ddsketch_def new_logarithmic_mapping_def key_mapping_init_def dbl_min_def
        mapping_key_def trunc_cast_def int64_min_def int64_max_def)
  show ?thesis unfolding Let_def by (intro conjI h ddsketch_quantile_accuracy [OF h])
qed

end
